theory Spec2Isabelle
  imports Main
begin

section \<open>The tree cache of the frontend (tree\_cache.js)\<close>

text \<open>
  The class \<open>TreeCache\<close> keeps three dictionaries (notes, branches, attributes) and a
  dictionary of pending note-content fetches. They are modelled as maps from ids to
  entity records. Every entity object is reachable through its dictionary only, so an
  in-place mutation of an entity is an update of the map at the entity's key. The
  dictionaries are plain objects; ids are taken not to be names of properties that every
  object inherits (such as \<open>constructor\<close>), so a key is in a dictionary exactly when
  it was stored there.
\<close>

subsection \<open>Rows received from the server\<close>

record noteRow =
  nr_noteId :: string
  nr_type :: string
  nr_title :: string

record branchRow =
  br_branchId :: string
  br_noteId :: string
  br_parentNoteId :: string
  br_prefix :: string
  br_notePosition :: int
  br_isDeleted :: bool

record attributeRow =
  ar_attributeId :: string
  ar_noteId :: string
  ar_type :: string
  ar_name :: string
  ar_value :: string
  ar_isDeleted :: bool

subsection \<open>Entities\<close>

text \<open>
  The entity classes (note\_short.js, branch.js, attribute.js) and load\_results.js are
  imported by the source file but are not part of the sources at hand. Their
  constructors and methods are modelled from the specification's data model.
\<close>

record noteShort =
  n_noteId :: string
  n_type :: string
  n_title :: string
  parents :: "string list"
  children :: "string list"
  parentToBranch :: "string \<rightharpoonup> string"
  childToBranch :: "string \<rightharpoonup> string"
  n_attributes :: "string list"
  targetRelations :: "string list"

record branch =
  b_branchId :: string
  b_noteId :: string
  b_parentNoteId :: string
  b_prefix :: string
  b_notePosition :: int

record attribute =
  a_attributeId :: string
  a_noteId :: string
  a_type :: string
  a_name :: string
  a_value :: string

text \<open>Modelled from the spec: the constructor of NoteShort (note\_short.js is missing):
  a fresh note object built from the row, with empty adjacency and empty attribute
  indices.\<close>

definition NoteShort :: "noteRow \<Rightarrow> noteShort" where
  "NoteShort row =
     \<lparr>n_noteId = nr_noteId row, n_type = nr_type row, n_title = nr_title row,
      parents = [], children = [], parentToBranch = Map.empty, childToBranch = Map.empty,
      n_attributes = [], targetRelations = []\<rparr>"

text \<open>Modelled from the spec: NoteShort.update (note\_short.js is missing): the fields
  of the row are written into the existing object, adjacency and indices are kept.\<close>

definition note_update :: "noteShort \<Rightarrow> noteRow \<Rightarrow> noteShort" where
  "note_update n row =
     n\<lparr>n_noteId := nr_noteId row, n_type := nr_type row, n_title := nr_title row\<rparr>"

text \<open>Modelled from the spec: NoteShort.addParent (note\_short.js is missing): the
  parent relationship is added to the note, the parent id at most once in the ordered
  list, and the mapping parentNoteId \<open>\<rightarrow>\<close> branchId is set.\<close>

definition addParent :: "noteShort \<Rightarrow> string \<Rightarrow> string \<Rightarrow> noteShort" where
  "addParent n parentNoteId branchId =
     n\<lparr>parents := (if parentNoteId \<in> set (parents n) then parents n
                     else parents n @ [parentNoteId]),
       parentToBranch := (parentToBranch n)(parentNoteId \<mapsto> branchId)\<rparr>"

text \<open>Modelled from the spec: NoteShort.addChild (note\_short.js is missing): the child
  relationship is added to the note, the child id at most once in the ordered list, and
  the mapping childNoteId \<open>\<rightarrow>\<close> branchId is set.\<close>

definition addChild :: "noteShort \<Rightarrow> string \<Rightarrow> string \<Rightarrow> noteShort" where
  "addChild n childNoteId branchId =
     n\<lparr>children := (if childNoteId \<in> set (children n) then children n
                      else children n @ [childNoteId]),
       childToBranch := (childToBranch n)(childNoteId \<mapsto> branchId)\<rparr>"

text \<open>Modelled from the spec: the constructor of Branch and Branch.update (branch.js is
  missing): both take every field of the entity from the row.\<close>

definition Branch :: "branchRow \<Rightarrow> branch" where
  "Branch row =
     \<lparr>b_branchId = br_branchId row, b_noteId = br_noteId row,
      b_parentNoteId = br_parentNoteId row, b_prefix = br_prefix row,
      b_notePosition = br_notePosition row\<rparr>"

definition branch_update :: "branch \<Rightarrow> branchRow \<Rightarrow> branch" where
  "branch_update b row =
     b\<lparr>b_branchId := br_branchId row, b_noteId := br_noteId row,
       b_parentNoteId := br_parentNoteId row, b_prefix := br_prefix row,
       b_notePosition := br_notePosition row\<rparr>"

text \<open>Modelled from the spec: the constructor of Attribute and Attribute.update
  (attribute.js is missing): both take every field of the entity from the row.\<close>

definition Attribute :: "attributeRow \<Rightarrow> attribute" where
  "Attribute row =
     \<lparr>a_attributeId = ar_attributeId row, a_noteId = ar_noteId row, a_type = ar_type row,
      a_name = ar_name row, a_value = ar_value row\<rparr>"

definition attribute_update :: "attribute \<Rightarrow> attributeRow \<Rightarrow> attribute" where
  "attribute_update a row =
     a\<lparr>a_attributeId := ar_attributeId row, a_noteId := ar_noteId row, a_type := ar_type row,
       a_name := ar_name row, a_value := ar_value row\<rparr>"

subsection \<open>The cache\<close>

record treeCache =
  tc_notes :: "string \<rightharpoonup> noteShort"
  tc_branches :: "string \<rightharpoonup> branch"
  tc_attributes :: "string \<rightharpoonup> attribute"
  tc_noteComplementPromises :: "string \<rightharpoonup> string"

datatype error =
  TypeError
| SearchNoteFailed string

text \<open>A property access \<open>obj[k]\<close> turns the key into a string: the key
  \<open>undefined\<close> names the property "undefined".\<close>

definition propertyKey :: "string option \<Rightarrow> string" where
  "propertyKey k = (case k of None \<Rightarrow> ''undefined'' | Some b \<Rightarrow> b)"

subsection \<open>addResp: the batch merge\<close>

text \<open>The body of the loop over \<open>oldNote.children\<close> (lines 49 to 58).\<close>

definition detachChild :: "string \<Rightarrow> treeCache \<Rightarrow> string \<Rightarrow> treeCache" where
  "detachChild noteId s childNoteId =
     (case tc_notes s childNoteId of
        None \<Rightarrow> s
      | Some childNote \<Rightarrow>
          s\<lparr>tc_notes := (tc_notes s)(childNoteId \<mapsto>
                 childNote\<lparr>parents := filter (\<lambda>p. p \<noteq> noteId) (parents childNote),
                           parentToBranch := (parentToBranch childNote)(noteId := None)\<rparr>),
             tc_branches := (tc_branches s)(propertyKey (parentToBranch childNote noteId) := None)\<rparr>)"

text \<open>The body of the loop over \<open>oldNote.parents\<close> (lines 60 to 69).\<close>

definition detachParent :: "string \<Rightarrow> treeCache \<Rightarrow> string \<Rightarrow> treeCache" where
  "detachParent noteId s parentNoteId =
     (case tc_notes s parentNoteId of
        None \<Rightarrow> s
      | Some parentNote \<Rightarrow>
          s\<lparr>tc_notes := (tc_notes s)(parentNoteId \<mapsto>
                 parentNote\<lparr>children := filter (\<lambda>p. p \<noteq> noteId) (children parentNote),
                            childToBranch := (childToBranch parentNote)(noteId := None)\<rparr>),
             tc_branches := (tc_branches s)(propertyKey (childToBranch parentNote noteId) := None)\<rparr>)"

text \<open>The list a loop \<open>for (const x of this.notes[noteId].parents)\<close> runs over, read
  when the loop starts.\<close>

definition parentsOf :: "treeCache \<Rightarrow> string \<Rightarrow> string list" where
  "parentsOf s noteId = (case tc_notes s noteId of None \<Rightarrow> [] | Some n \<Rightarrow> parents n)"

definition childrenOf :: "treeCache \<Rightarrow> string \<Rightarrow> string list" where
  "childrenOf s noteId = (case tc_notes s noteId of None \<Rightarrow> [] | Some n \<Rightarrow> children n)"

text \<open>One note row (lines 43 to 75). \<open>oldNote\<close> is the object stored at
  \<open>noteId\<close>; the first loop may rewrite its \<open>parents\<close> field (when the note is
  its own child), so the second loop reads the field after the first loop has run.\<close>

definition detachNote :: "treeCache \<Rightarrow> string \<Rightarrow> treeCache" where
  "detachNote s noteId =
     (let s1 = foldl (detachChild noteId) s (childrenOf s noteId)
      in foldl (detachParent noteId) s1 (parentsOf s1 noteId))"

definition addNoteRow :: "treeCache \<Rightarrow> noteRow \<Rightarrow> treeCache" where
  "addNoteRow s noteRow =
     (let s2 = detachNote s (nr_noteId noteRow)
      in s2\<lparr>tc_notes := (tc_notes s2)(nr_noteId noteRow \<mapsto> NoteShort noteRow)\<rparr>)"

text \<open>One branch row (lines 77 to 93).\<close>

definition wireChild :: "treeCache \<Rightarrow> branch \<Rightarrow> treeCache" where
  "wireChild s b =
     (case tc_notes s (b_noteId b) of
        None \<Rightarrow> s
      | Some childNote \<Rightarrow>
          s\<lparr>tc_notes := (tc_notes s)(b_noteId b \<mapsto>
                 addParent childNote (b_parentNoteId b) (b_branchId b))\<rparr>)"

definition wireParent :: "treeCache \<Rightarrow> branch \<Rightarrow> treeCache" where
  "wireParent s b =
     (case tc_notes s (b_parentNoteId b) of
        None \<Rightarrow> s
      | Some parentNote \<Rightarrow>
          s\<lparr>tc_notes := (tc_notes s)(b_parentNoteId b \<mapsto>
                 addChild parentNote (b_noteId b) (b_branchId b))\<rparr>)"

definition addBranchRow :: "treeCache \<Rightarrow> branchRow \<Rightarrow> treeCache" where
  "addBranchRow s branchRow =
     (let b = Branch branchRow;
          s1 = s\<lparr>tc_branches := (tc_branches s)(b_branchId b \<mapsto> b)\<rparr>
      in wireParent (wireChild s1 b) b)"

text \<open>One attribute row (lines 95 to 115). \<open>note\<close> is read without a check, so
  \<open>note.attributes\<close> raises a TypeError when the owner note is not in the cache; the
  attribute entity has been stored by then. The relation branch pushes to
  \<open>note.targetRelations\<close>, the list of the owner.\<close>

definition pushNew :: "string list \<Rightarrow> string \<Rightarrow> string list" where
  "pushNew xs x = (if x \<in> set xs then xs else xs @ [x])"

definition addAttributeRow :: "treeCache \<Rightarrow> attributeRow \<Rightarrow> error + treeCache" where
  "addAttributeRow s attributeRow =
     (let attributeId = ar_attributeId attributeRow;
          s1 = s\<lparr>tc_attributes := (tc_attributes s)(attributeId \<mapsto> Attribute attributeRow)\<rparr>
      in case tc_notes s1 (ar_noteId attributeRow) of
           None \<Rightarrow> Inl TypeError
         | Some note0 \<Rightarrow>
             (let note1 = note0\<lparr>n_attributes := pushNew (n_attributes note0) attributeId\<rparr>;
                  note2 =
                    (if ar_type attributeRow = ''relation''
                     then (case tc_notes s1 (ar_value attributeRow) of
                             None \<Rightarrow> note1
                           | Some targetNote \<Rightarrow>
                               note1\<lparr>targetRelations :=
                                        pushNew (targetRelations note1) attributeId\<rparr>)
                     else note1)
              in Inr (s1\<lparr>tc_notes := (tc_notes s1)(ar_noteId attributeRow \<mapsto> note2)\<rparr>)))"

text \<open>The loop over the attribute rows stops at the first row that raises. The error
  value stands for the exception leaving addResp; the cache as the rows before it left it
  is not part of the value.\<close>

fun addAttributeRows :: "treeCache \<Rightarrow> attributeRow list \<Rightarrow> error + treeCache" where
  "addAttributeRows s [] = Inr s"
| "addAttributeRows s (r # rs) =
     (case addAttributeRow s r of Inl e \<Rightarrow> Inl e | Inr s' \<Rightarrow> addAttributeRows s' rs)"

definition addResp ::
  "treeCache \<Rightarrow> noteRow list \<Rightarrow> branchRow list \<Rightarrow> attributeRow list \<Rightarrow> error + treeCache" where
  "addResp s noteRows branchRows attributeRows =
     addAttributeRows (foldl addBranchRow (foldl addNoteRow s noteRows) branchRows)
       attributeRows"

subsection \<open>Lookups\<close>

text \<open>A JavaScript value that is an object, \<open>null\<close> or \<open>undefined\<close>.\<close>

datatype 'a jsval = Undefined | Null | Obj 'a

fun truthy :: "'a jsval \<Rightarrow> bool" where
  "truthy (Obj x) = True"
| "truthy Undefined = False"
| "truthy Null = False"

text \<open>The lines written to the console.\<close>

datatype logLine =
  CantFindNote string
| NotExistingBranch string

text \<open>getBranch (lines 207 to 216): the branch when the id is a key of the dictionary;
  otherwise the function logs (unless silenced) and ends without a return statement, so
  the call evaluates to \<open>undefined\<close>.\<close>

definition getBranch :: "treeCache \<Rightarrow> string \<Rightarrow> bool \<Rightarrow> branch jsval \<times> logLine list" where
  "getBranch s branchId silentNotFoundError =
     (case tc_branches s branchId of
        None \<Rightarrow> (Undefined, if \<not> silentNotFoundError then [NotExistingBranch branchId] else [])
      | Some b \<Rightarrow> (Obj b, []))"

text \<open>getBranches (lines 200 to 204): the filter keeps every value that is not
  \<open>null\<close>.\<close>

definition getBranches :: "treeCache \<Rightarrow> string list \<Rightarrow> branch jsval list \<times> logLine list" where
  "getBranches s branchIds =
     (let rs = map (\<lambda>branchId. getBranch s branchId False) branchIds
      in (filter (\<lambda>b. b \<noteq> Null) (map fst rs), concat (map snd rs)))"

subsection \<open>The lazy loader\<close>

text \<open>The server is outside the cache: its two endpoints are parameters. A falsy
  response of the search endpoint is \<open>None\<close>. The requests sent and the console lines
  are recorded beside the cache.\<close>

record treeResp =
  resp_notes :: "noteRow list"
  resp_branches :: "branchRow list"
  resp_attributes :: "attributeRow list"

record searchResult =
  sr_noteId :: string
  sr_branchId :: string

record server =
  srv_treeLoad :: "string list \<Rightarrow> treeResp"
  srv_searchNote :: "string \<Rightarrow> searchResult list option"

datatype request =
  PostTreeLoad "string list"
| GetSearchNote string

record session =
  cache :: treeCache
  requests :: "request list"
  console :: "logLine list"

text \<open>\<open>Array.from(new Set(noteIds))\<close>: the first occurrence of every id, in order.\<close>

definition uniqueIds :: "string list \<Rightarrow> string list" where
  "uniqueIds noteIds = rev (remdups (rev noteIds))"

text \<open>The callback of \<open>noteIds.map\<close> in getNotes (lines 163 to 172).\<close>

definition lookupNote :: "treeCache \<Rightarrow> bool \<Rightarrow> string \<Rightarrow> noteShort jsval \<times> logLine list" where
  "lookupNote s silentNotFoundError noteId =
     (case tc_notes s noteId of
        None \<Rightarrow> (if \<not> silentNotFoundError then (Null, [CantFindNote noteId])
                 else (Undefined, []))
      | Some n \<Rightarrow> (Obj n, []))"

text \<open>getNotes (lines 158 to 173), with the reload step as a parameter. \<open>None\<close>
  stands for a reload that has not returned.\<close>

definition getNotesWith ::
  "(session \<Rightarrow> string list \<Rightarrow> (error + session) option) \<Rightarrow> session \<Rightarrow> string list \<Rightarrow> bool
     \<Rightarrow> (error + session \<times> noteShort jsval list) option" where
  "getNotesWith reload w noteIds silentNotFoundError =
     (let missingNoteIds = filter (\<lambda>noteId. tc_notes (cache w) noteId = None) noteIds
      in case reload w missingNoteIds of
           None \<Rightarrow> None
         | Some (Inl e) \<Rightarrow> Some (Inl e)
         | Some (Inr w1) \<Rightarrow>
             (let rs = map (lookupNote (cache w1) silentNotFoundError) noteIds
              in Some (Inr (w1\<lparr>console := console w1 @ concat (map snd rs)\<rparr>,
                            filter truthy (map fst rs)))))"

text \<open>One synthesized branch row (lines 142 to 149). \<open>this.getBranch(...).prefix\<close>
  raises a TypeError when the branch of the search result is not in the cache.\<close>

definition virtualBranch :: "treeCache \<Rightarrow> noteRow \<Rightarrow> nat \<Rightarrow> searchResult \<Rightarrow> error + branchRow" where
  "virtualBranch s noteRow index result =
     (case fst (getBranch s (sr_branchId result) False) of
        Obj b \<Rightarrow>
          Inr \<lparr>br_branchId = ''virt'' @ sr_noteId result @ ''-'' @ nr_noteId noteRow,
               br_noteId = sr_noteId result,
               br_parentNoteId = nr_noteId noteRow,
               br_prefix = b_prefix b,
               br_notePosition = (int index + 1) * 10,
               br_isDeleted = False\<rparr>
      | Undefined \<Rightarrow> Inl TypeError
      | Null \<Rightarrow> Inl TypeError)"

fun virtualBranches ::
  "treeCache \<Rightarrow> noteRow \<Rightarrow> nat \<Rightarrow> searchResult list \<Rightarrow> error + branchRow list" where
  "virtualBranches s noteRow index [] = Inr []"
| "virtualBranches s noteRow index (result # rest) =
     (case virtualBranch s noteRow index result of
        Inl e \<Rightarrow> Inl e
      | Inr b \<Rightarrow>
          (case virtualBranches s noteRow (Suc index) rest of
             Inl e \<Rightarrow> Inl e
           | Inr bs \<Rightarrow> Inr (b # bs)))"

text \<open>The body of the loop over \<open>resp.notes\<close> (lines 129 to 154).\<close>

definition reloadSearchNote ::
  "(session \<Rightarrow> string list \<Rightarrow> (error + session) option) \<Rightarrow> server \<Rightarrow> treeResp \<Rightarrow> session
     \<Rightarrow> noteRow \<Rightarrow> (error + session) option" where
  "reloadSearchNote reload srv resp w noteRow =
     (if nr_type noteRow = ''search'' then
        (let w1 = w\<lparr>requests := requests w @ [GetSearchNote (nr_noteId noteRow)]\<rparr>
         in case srv_searchNote srv (nr_noteId noteRow) of
              None \<Rightarrow> Some (Inl (SearchNoteFailed (nr_noteId noteRow)))
            | Some searchResults \<Rightarrow>
                (case getNotesWith reload w1 (map sr_noteId searchResults) False of
                   None \<Rightarrow> None
                 | Some (Inl e) \<Rightarrow> Some (Inl e)
                 | Some (Inr (w2, loaded)) \<Rightarrow>
                     (let stored = filter (\<lambda>b. br_noteId b = nr_noteId noteRow
                                              \<or> br_parentNoteId b = nr_noteId noteRow)
                                     (resp_branches resp)
                      in case virtualBranches (cache w2) noteRow 0 searchResults of
                           Inl e \<Rightarrow> Some (Inl e)
                         | Inr virt \<Rightarrow>
                             (case addResp (cache w2) [noteRow] (stored @ virt) [] of
                                Inl e \<Rightarrow> Some (Inl e)
                              | Inr c \<Rightarrow> Some (Inr (w2\<lparr>cache := c\<rparr>))))))
      else Some (Inr w))"

fun reloadSearchNotes ::
  "(session \<Rightarrow> string list \<Rightarrow> (error + session) option) \<Rightarrow> server \<Rightarrow> treeResp \<Rightarrow> session
     \<Rightarrow> noteRow list \<Rightarrow> (error + session) option" where
  "reloadSearchNotes reload srv resp w [] = Some (Inr w)"
| "reloadSearchNotes reload srv resp w (noteRow # rest) =
     (case reloadSearchNote reload srv resp w noteRow of
        None \<Rightarrow> None
      | Some (Inl e) \<Rightarrow> Some (Inl e)
      | Some (Inr w') \<Rightarrow> reloadSearchNotes reload srv resp w' rest)"

text \<open>reloadNotes (lines 118 to 155) after the early return: the fetch, the merge and
  the loop over the notes of the response.\<close>

definition reloadFetch ::
  "(session \<Rightarrow> string list \<Rightarrow> (error + session) option) \<Rightarrow> server \<Rightarrow> session \<Rightarrow> string list
     \<Rightarrow> (error + session) option" where
  "reloadFetch reload srv w noteIds =
     (let ids = uniqueIds noteIds;
          resp = srv_treeLoad srv ids;
          w1 = w\<lparr>requests := requests w @ [PostTreeLoad ids]\<rparr>
      in case addResp (cache w1) (resp_notes resp) (resp_branches resp) (resp_attributes resp) of
           Inl e \<Rightarrow> Some (Inl e)
         | Inr c \<Rightarrow> reloadSearchNotes reload srv resp (w1\<lparr>cache := c\<rparr>) (resp_notes resp))"

text \<open>reloadNotes and getNotes call each other through the search notes, for as long as
  the server keeps answering with search notes whose results are missing. The first
  argument bounds the depth of these nested fetches; \<open>None\<close> means the bound was
  reached. The early return for an empty list needs no fetch and no fuel.\<close>

primrec reloadNotes :: "nat \<Rightarrow> server \<Rightarrow> session \<Rightarrow> string list \<Rightarrow> (error + session) option" where
  "reloadNotes 0 srv w noteIds = (if noteIds = [] then Some (Inr w) else None)"
| "reloadNotes (Suc fuel) srv w noteIds =
     (if noteIds = [] then Some (Inr w)
      else reloadFetch (reloadNotes fuel srv) srv w noteIds)"

definition getNotes ::
  "nat \<Rightarrow> server \<Rightarrow> session \<Rightarrow> string list \<Rightarrow> bool
     \<Rightarrow> (error + session \<times> noteShort jsval list) option" where
  "getNotes fuel srv w noteIds silentNotFoundError =
     getNotesWith (reloadNotes fuel srv) w noteIds silentNotFoundError"

subsection \<open>processSyncRows: the sync reconciler\<close>

text \<open>A sync row is tagged by its \<open>entityName\<close>; the tag decides which payload the
  row carries. Every row has an \<open>entityId\<close> (first argument) and a \<open>sourceId\<close>
  (last argument).\<close>

datatype syncRow =
  NoteSync string noteRow string
| BranchSync string branchRow string
| NoteReorderingSync string "(string \<times> int) list" string
| AttributeSync string attributeRow string
| NoteContentSync string string
| NoteRevisionSync string string string

fun entityName :: "syncRow \<Rightarrow> string" where
  "entityName (NoteSync entityId entity sourceId) = ''notes''"
| "entityName (BranchSync entityId entity sourceId) = ''branches''"
| "entityName (NoteReorderingSync entityId positions sourceId) = ''note_reordering''"
| "entityName (AttributeSync entityId entity sourceId) = ''attributes''"
| "entityName (NoteContentSync entityId sourceId) = ''note_contents''"
| "entityName (NoteRevisionSync entityId noteId sourceId) = ''note_revisions''"

text \<open>Modelled from the spec: LoadResults (load\_results.js is missing), the change-set:
  per entity kind the list of changed ids, each with the source id of its sync row.\<close>

record loadResults =
  lr_notes :: "(string \<times> string) list"
  lr_branches :: "(string \<times> string) list"
  lr_noteReorderings :: "(string \<times> string) list"
  lr_attributes :: "(string \<times> string) list"
  lr_noteContents :: "(string \<times> string) list"
  lr_noteRevisions :: "(string \<times> string \<times> string) list"

definition emptyLoadResults :: loadResults where
  "emptyLoadResults =
     \<lparr>lr_notes = [], lr_branches = [], lr_noteReorderings = [], lr_attributes = [],
      lr_noteContents = [], lr_noteRevisions = []\<rparr>"

definition addNote :: "loadResults \<Rightarrow> string \<Rightarrow> string \<Rightarrow> loadResults" where
  "addNote lr noteId sourceId = lr\<lparr>lr_notes := lr_notes lr @ [(noteId, sourceId)]\<rparr>"

definition addBranch :: "loadResults \<Rightarrow> string \<Rightarrow> string \<Rightarrow> loadResults" where
  "addBranch lr branchId sourceId = lr\<lparr>lr_branches := lr_branches lr @ [(branchId, sourceId)]\<rparr>"

definition addNoteReordering :: "loadResults \<Rightarrow> string \<Rightarrow> string \<Rightarrow> loadResults" where
  "addNoteReordering lr parentNoteId sourceId =
     lr\<lparr>lr_noteReorderings := lr_noteReorderings lr @ [(parentNoteId, sourceId)]\<rparr>"

definition addAttribute :: "loadResults \<Rightarrow> string \<Rightarrow> string \<Rightarrow> loadResults" where
  "addAttribute lr attributeId sourceId =
     lr\<lparr>lr_attributes := lr_attributes lr @ [(attributeId, sourceId)]\<rparr>"

definition addNoteContent :: "loadResults \<Rightarrow> string \<Rightarrow> string \<Rightarrow> loadResults" where
  "addNoteContent lr noteId sourceId =
     lr\<lparr>lr_noteContents := lr_noteContents lr @ [(noteId, sourceId)]\<rparr>"

definition addNoteRevision :: "loadResults \<Rightarrow> string \<Rightarrow> string \<Rightarrow> string \<Rightarrow> loadResults" where
  "addNoteRevision lr noteRevisionId noteId sourceId =
     lr\<lparr>lr_noteRevisions := lr_noteRevisions lr @ [(noteRevisionId, noteId, sourceId)]\<rparr>"

text \<open>Rows of kind notes (lines 236 to 243).\<close>

fun syncNote :: "treeCache \<times> loadResults \<Rightarrow> syncRow \<Rightarrow> treeCache \<times> loadResults" where
  "syncNote (s, lr) (NoteSync entityId entity sourceId) =
     (case tc_notes s entityId of
        None \<Rightarrow> (s, lr)
      | Some n \<Rightarrow>
          (s\<lparr>tc_notes := (tc_notes s)(entityId \<mapsto> note_update n entity)\<rparr>,
           addNote lr entityId sourceId))"
| "syncNote (s, lr) other = (s, lr)"

text \<open>Rows of kind branches (lines 245 to 291). The two statements of the deleted case
  that touch the child note (lines 252 to 255) and the parent note (lines 257 to 260):\<close>

definition unwireChild :: "treeCache \<Rightarrow> branchRow \<Rightarrow> treeCache" where
  "unwireChild s entity =
     (case tc_notes s (br_noteId entity) of
        None \<Rightarrow> s
      | Some childNote \<Rightarrow>
          s\<lparr>tc_notes := (tc_notes s)(br_noteId entity \<mapsto>
                 childNote\<lparr>parents := filter (\<lambda>parentNoteId. parentNoteId \<noteq> br_parentNoteId entity)
                                         (parents childNote),
                           parentToBranch :=
                             (parentToBranch childNote)(br_parentNoteId entity := None)\<rparr>)\<rparr>)"

definition unwireParent :: "treeCache \<Rightarrow> branchRow \<Rightarrow> treeCache" where
  "unwireParent s entity =
     (case tc_notes s (br_parentNoteId entity) of
        None \<Rightarrow> s
      | Some parentNote \<Rightarrow>
          s\<lparr>tc_notes := (tc_notes s)(br_parentNoteId entity \<mapsto>
                 parentNote\<lparr>children := filter (\<lambda>childNoteId. childNoteId \<noteq> br_noteId entity)
                                           (children parentNote),
                            childToBranch :=
                              (childToBranch parentNote)(br_noteId entity := None)\<rparr>)\<rparr>)"

fun syncBranch :: "treeCache \<times> loadResults \<Rightarrow> syncRow \<Rightarrow> treeCache \<times> loadResults" where
  "syncBranch (s, lr) (BranchSync entityId entity sourceId) =
     (case tc_branches s entityId of
        Some branch0 \<Rightarrow>
          (if br_isDeleted entity then (unwireParent (unwireChild s entity) entity, lr)
           else
             (let b = branch_update branch0 entity;
                  s1 = s\<lparr>tc_branches := (tc_branches s)(entityId \<mapsto> b)\<rparr>
              in (wireParent (wireChild s1 b) b, addBranch lr entityId sourceId)))
      | None \<Rightarrow>
          (if \<not> br_isDeleted entity then
             (if tc_notes s (br_noteId entity) \<noteq> None \<or> tc_notes s (br_parentNoteId entity) \<noteq> None
              then
                (let b = Branch entity;
                     s1 = s\<lparr>tc_branches := (tc_branches s)(b_branchId b \<mapsto> b)\<rparr>
                 in (wireParent (wireChild s1 b) b, addBranch lr entityId sourceId))
              else (s, lr))
           else (s, lr)))"
| "syncBranch (s, lr) other = (s, lr)"

text \<open>Rows of kind note\_reordering (lines 293 to 303). \<open>positions\<close> lists the
  properties of \<open>sync.positions\<close> in the order the \<open>for ... in\<close> loop visits them.\<close>

definition setPosition :: "treeCache \<Rightarrow> string \<times> int \<Rightarrow> treeCache" where
  "setPosition s p =
     (case tc_branches s (fst p) of
        None \<Rightarrow> s
      | Some b \<Rightarrow> s\<lparr>tc_branches := (tc_branches s)(fst p \<mapsto> b\<lparr>b_notePosition := snd p\<rparr>)\<rparr>)"

fun syncNoteReordering :: "treeCache \<times> loadResults \<Rightarrow> syncRow \<Rightarrow> treeCache \<times> loadResults" where
  "syncNoteReordering (s, lr) (NoteReorderingSync entityId positions sourceId) =
     (foldl setPosition s positions, addNoteReordering lr entityId sourceId)"
| "syncNoteReordering (s, lr) other = (s, lr)"

text \<open>Rows of kind attributes (lines 306 to 342). \<open>targetNote\<close> is truthy when the
  row is a relation and the note named by its value is in the cache. The deleted case
  filters the target's \<open>targetRelations\<close> by \<open>attribute.value\<close>; the creation
  case pushes to the target's \<open>attributes\<close>.\<close>

definition hasTargetNote :: "treeCache \<Rightarrow> attributeRow \<Rightarrow> bool" where
  "hasTargetNote s entity \<longleftrightarrow> ar_type entity = ''relation'' \<and> tc_notes s (ar_value entity) \<noteq> None"

definition dropOwnerAttribute :: "treeCache \<Rightarrow> attributeRow \<Rightarrow> attribute \<Rightarrow> treeCache" where
  "dropOwnerAttribute s entity a =
     (case tc_notes s (ar_noteId entity) of
        None \<Rightarrow> s
      | Some sourceNote \<Rightarrow>
          s\<lparr>tc_notes := (tc_notes s)(ar_noteId entity \<mapsto>
                 sourceNote\<lparr>n_attributes :=
                   filter (\<lambda>attributeId. attributeId \<noteq> a_attributeId a) (n_attributes sourceNote)\<rparr>)\<rparr>)"

definition dropTargetRelation :: "treeCache \<Rightarrow> attributeRow \<Rightarrow> attribute \<Rightarrow> treeCache" where
  "dropTargetRelation s entity a =
     (if ar_type entity = ''relation'' then
        (case tc_notes s (ar_value entity) of
           None \<Rightarrow> s
         | Some targetNote \<Rightarrow>
             s\<lparr>tc_notes := (tc_notes s)(ar_value entity \<mapsto>
                    targetNote\<lparr>targetRelations :=
                      filter (\<lambda>attributeId. attributeId \<noteq> a_value a) (targetRelations targetNote)\<rparr>)\<rparr>)
      else s)"

definition pushOwnerAttribute :: "treeCache \<Rightarrow> attributeRow \<Rightarrow> attribute \<Rightarrow> treeCache" where
  "pushOwnerAttribute s entity a =
     (case tc_notes s (ar_noteId entity) of
        None \<Rightarrow> s
      | Some sourceNote \<Rightarrow>
          s\<lparr>tc_notes := (tc_notes s)(ar_noteId entity \<mapsto>
                 sourceNote\<lparr>n_attributes := pushNew (n_attributes sourceNote) (a_attributeId a)\<rparr>)\<rparr>)"

definition pushTargetAttribute :: "treeCache \<Rightarrow> attributeRow \<Rightarrow> attribute \<Rightarrow> treeCache" where
  "pushTargetAttribute s entity a =
     (if ar_type entity = ''relation'' then
        (case tc_notes s (ar_value entity) of
           None \<Rightarrow> s
         | Some targetNote \<Rightarrow>
             s\<lparr>tc_notes := (tc_notes s)(ar_value entity \<mapsto>
                    targetNote\<lparr>n_attributes := pushNew (n_attributes targetNote) (a_attributeId a)\<rparr>)\<rparr>)
      else s)"

fun syncAttribute :: "treeCache \<times> loadResults \<Rightarrow> syncRow \<Rightarrow> treeCache \<times> loadResults" where
  "syncAttribute (s, lr) (AttributeSync entityId entity sourceId) =
     (case tc_attributes s entityId of
        Some attribute0 \<Rightarrow>
          (let a = attribute_update attribute0 entity;
               s1 = s\<lparr>tc_attributes := (tc_attributes s)(entityId \<mapsto> a)\<rparr>;
               lr1 = addAttribute lr entityId sourceId
           in if ar_isDeleted entity
              then (dropTargetRelation (dropOwnerAttribute s1 entity a) entity a, lr1)
              else (s1, lr1))
      | None \<Rightarrow>
          (if \<not> ar_isDeleted entity then
             (if tc_notes s (ar_noteId entity) \<noteq> None \<or> hasTargetNote s entity then
                (let a = Attribute entity;
                     s1 = s\<lparr>tc_attributes := (tc_attributes s)(a_attributeId a \<mapsto> a)\<rparr>
                 in (pushTargetAttribute (pushOwnerAttribute s1 entity a) entity a,
                     addAttribute lr entityId sourceId))
              else (s, lr))
           else (s, lr)))"
| "syncAttribute (s, lr) other = (s, lr)"

text \<open>Rows of kind note\_contents (lines 344 to 348) and note\_revisions (lines 350 to
  352).\<close>

fun syncNoteContent :: "treeCache \<times> loadResults \<Rightarrow> syncRow \<Rightarrow> treeCache \<times> loadResults" where
  "syncNoteContent (s, lr) (NoteContentSync entityId sourceId) =
     (s\<lparr>tc_noteComplementPromises := (tc_noteComplementPromises s)(entityId := None)\<rparr>,
      addNoteContent lr entityId sourceId)"
| "syncNoteContent (s, lr) other = (s, lr)"

fun syncNoteRevision :: "treeCache \<times> loadResults \<Rightarrow> syncRow \<Rightarrow> treeCache \<times> loadResults" where
  "syncNoteRevision (s, lr) (NoteRevisionSync entityId noteId sourceId) =
     (s, addNoteRevision lr entityId noteId sourceId)"
| "syncNoteRevision (s, lr) other = (s, lr)"

text \<open>One pass of \<open>syncRows.filter(sync => sync.entityName === name).forEach(...)\<close>.\<close>

definition syncPass ::
  "string \<Rightarrow> (treeCache \<times> loadResults \<Rightarrow> syncRow \<Rightarrow> treeCache \<times> loadResults)
     \<Rightarrow> syncRow list \<Rightarrow> treeCache \<times> loadResults \<Rightarrow> treeCache \<times> loadResults" where
  "syncPass name step syncRows st =
     foldl step st (filter (\<lambda>sync. entityName sync = name) syncRows)"

text \<open>processSyncRows (lines 233 to 355): the cache after the call and the load results
  handed to \<open>appContext.trigger('entitiesReloaded', ...)\<close>.\<close>

definition processSyncRows :: "treeCache \<Rightarrow> syncRow list \<Rightarrow> treeCache \<times> loadResults" where
  "processSyncRows s syncRows =
     (syncPass ''note_revisions'' syncNoteRevision syncRows
       (syncPass ''note_contents'' syncNoteContent syncRows
         (syncPass ''attributes'' syncAttribute syncRows
           (syncPass ''note_reordering'' syncNoteReordering syncRows
             (syncPass ''branches'' syncBranch syncRows
               (syncPass ''notes'' syncNote syncRows (s, emptyLoadResults)))))))"

subsection \<open>Notions used to state the properties\<close>

text \<open>The entries a batch of sync rows can contribute to the branch list of the load
  results: the pair of entity id and source id of every branch row that is not
  deleted.\<close>

definition liveBranchEntries :: "syncRow list \<Rightarrow> (string \<times> string) set" where
  "liveBranchEntries syncRows =
     {(entityId, sourceId) | entityId entity sourceId.
        BranchSync entityId entity sourceId \<in> set syncRows \<and> \<not> br_isDeleted entity}"

text \<open>The value of \<open>this.notes[noteId]\<close>.\<close>

definition residentNote :: "treeCache \<Rightarrow> string \<Rightarrow> noteShort jsval" where
  "residentNote s noteId = (case tc_notes s noteId of None \<Rightarrow> Undefined | Some n \<Rightarrow> Obj n)"


subsection \<open>What the loops of addResp compute\<close>

text \<open>The loops of addResp are described in closed form, note by note. These
  definitions are not part of the program; the lemmas below prove that the loops
  compute them.\<close>

text \<open>The edges a list of branch rows gives the note \<open>m\<close>: its parents with the
  branch ids, and its children with the branch ids, in the order of the rows.\<close>

definition parentEdges :: "string \<Rightarrow> branchRow list \<Rightarrow> (string \<times> string) list" where
  "parentEdges m branchRows =
     map (\<lambda>b. (br_parentNoteId b, br_branchId b)) (filter (\<lambda>b. br_noteId b = m) branchRows)"

definition childEdges :: "string \<Rightarrow> branchRow list \<Rightarrow> (string \<times> string) list" where
  "childEdges m branchRows =
     map (\<lambda>b. (br_noteId b, br_branchId b)) (filter (\<lambda>b. br_parentNoteId b = m) branchRows)"

definition parentIds :: "string \<Rightarrow> branchRow list \<Rightarrow> string set" where
  "parentIds m branchRows = fst ` set (parentEdges m branchRows)"

definition childIds :: "string \<Rightarrow> branchRow list \<Rightarrow> string set" where
  "childIds m branchRows = fst ` set (childEdges m branchRows)"

definition branchIds :: "branchRow list \<Rightarrow> string set" where
  "branchIds branchRows = br_branchId ` set branchRows"

text \<open>The note \<open>m\<close> after the loop over the branch rows: every parent and child of
  the rows pushed once, the mappings overwritten by the rows, a later row winning.\<close>

definition wireNote :: "string \<Rightarrow> branchRow list \<Rightarrow> noteShort \<Rightarrow> noteShort" where
  "wireNote m branchRows n =
     n\<lparr>parents := foldl pushNew (parents n) (map fst (parentEdges m branchRows)),
       parentToBranch := parentToBranch n ++ map_of (rev (parentEdges m branchRows)),
       children := foldl pushNew (children n) (map fst (childEdges m branchRows)),
       childToBranch := childToBranch n ++ map_of (rev (childEdges m branchRows))\<rparr>"

definition storeBranches :: "(string \<rightharpoonup> branch) \<Rightarrow> branchRow list \<Rightarrow> (string \<rightharpoonup> branch)" where
  "storeBranches f branchRows =
     f ++ map_of (rev (map (\<lambda>b. (br_branchId b, Branch b)) branchRows))"

text \<open>The note \<open>m\<close> after the loop over the attribute rows; \<open>D\<close> is the set of
  note ids in the cache.\<close>

definition ownedIds :: "string \<Rightarrow> attributeRow list \<Rightarrow> string list" where
  "ownedIds m attributeRows =
     map ar_attributeId (filter (\<lambda>r. ar_noteId r = m) attributeRows)"

definition ownedRelationIds :: "string set \<Rightarrow> string \<Rightarrow> attributeRow list \<Rightarrow> string list" where
  "ownedRelationIds D m attributeRows =
     map ar_attributeId
       (filter (\<lambda>r. ar_noteId r = m \<and> ar_type r = ''relation'' \<and> ar_value r \<in> D)
          attributeRows)"

definition indexNote :: "string set \<Rightarrow> attributeRow list \<Rightarrow> string \<Rightarrow> noteShort \<Rightarrow> noteShort" where
  "indexNote D attributeRows m n =
     n\<lparr>n_attributes := foldl pushNew (n_attributes n) (ownedIds m attributeRows),
       targetRelations :=
         foldl pushNew (targetRelations n) (ownedRelationIds D m attributeRows)\<rparr>"

definition storeAttributes ::
  "(string \<rightharpoonup> attribute) \<Rightarrow> attributeRow list \<Rightarrow> (string \<rightharpoonup> attribute)" where
  "storeAttributes f attributeRows =
     f ++ map_of (rev (map (\<lambda>r. (ar_attributeId r, Attribute r)) attributeRows))"

definition merged ::
  "string set \<Rightarrow> branchRow list \<Rightarrow> attributeRow list \<Rightarrow> string \<Rightarrow> noteShort \<Rightarrow> noteShort" where
  "merged D R A m n = indexNote D A m (wireNote m R n)"

text \<open>What the two detach loops do to one note.\<close>

definition dropParent :: "string \<Rightarrow> noteShort \<Rightarrow> noteShort" where
  "dropParent x n =
     n\<lparr>parents := filter (\<lambda>p. p \<noteq> x) (parents n),
       parentToBranch := (parentToBranch n)(x := None)\<rparr>"

definition dropChild :: "string \<Rightarrow> noteShort \<Rightarrow> noteShort" where
  "dropChild x n =
     n\<lparr>children := filter (\<lambda>p. p \<noteq> x) (children n),
       childToBranch := (childToBranch n)(x := None)\<rparr>"

text \<open>The list the second detach loop of the note \<open>x\<close> runs over, and the note stored
  at \<open>m\<close> after both loops.\<close>

definition parentsAfter :: "treeCache \<Rightarrow> string \<Rightarrow> string list" where
  "parentsAfter s x = parentsOf (foldl (detachChild x) s (childrenOf s x)) x"

definition detached :: "treeCache \<Rightarrow> string \<Rightarrow> string \<Rightarrow> noteShort \<Rightarrow> noteShort" where
  "detached s x m n =
     (let n1 = (if m \<in> set (childrenOf s x) then dropParent x n else n)
      in if m \<in> set (parentsOf (foldl (detachChild x) s (childrenOf s x)) x)
         then dropChild x n1 else n1)"

text \<open>The invariant of the note loop when a batch is merged a second time. \<open>N\<close> are
  the note ids of the batch and \<open>R\<close> its branch rows. Every note of the batch has
  duplicate-free adjacency lists that come from the rows, and every neighbour of it that
  is in the cache points back at it through a branch id of the rows.\<close>

definition batchWired :: "string set \<Rightarrow> branchRow list \<Rightarrow> treeCache \<Rightarrow> bool" where
  "batchWired N R u \<longleftrightarrow>
     (\<forall>m n. m \<in> N \<and> tc_notes u m = Some n \<longrightarrow>
        distinct (children n) \<and> distinct (parents n)
      \<and> set (children n) \<subseteq> childIds m R \<and> set (parents n) \<subseteq> parentIds m R
      \<and> (\<forall>c nc. c \<in> set (children n) \<and> tc_notes u c = Some nc \<longrightarrow>
            m \<in> set (parents nc) \<and> (\<exists>b \<in> branchIds R. parentToBranch nc m = Some b))
      \<and> (\<forall>p np. p \<in> set (parents n) \<and> tc_notes u p = Some np \<longrightarrow>
            m \<in> set (children np) \<and> (\<exists>b \<in> branchIds R. childToBranch np m = Some b)))"

text \<open>What the note loop of the second merge may have changed: in a note outside the
  batch only adjacency that the branch rows of the batch write again, and in the branch
  store only branch ids of the batch.\<close>

definition framed :: "string \<Rightarrow> branchRow list \<Rightarrow> noteShort \<Rightarrow> noteShort \<Rightarrow> bool" where
  "framed m R n n' \<longleftrightarrow>
     n_noteId n' = n_noteId n \<and> n_type n' = n_type n \<and> n_title n' = n_title n
   \<and> n_attributes n' = n_attributes n \<and> targetRelations n' = targetRelations n
   \<and> set (parents n') \<subseteq> set (parents n)
   \<and> set (parents n) \<subseteq> set (parents n') \<union> parentIds m R
   \<and> (\<forall>p. p \<notin> parentIds m R \<longrightarrow> parentToBranch n' p = parentToBranch n p)
   \<and> set (children n') \<subseteq> set (children n)
   \<and> set (children n) \<subseteq> set (children n') \<union> childIds m R
   \<and> (\<forall>c. c \<notin> childIds m R \<longrightarrow> childToBranch n' c = childToBranch n c)"

definition detachedFrom :: "string set \<Rightarrow> branchRow list \<Rightarrow> treeCache \<Rightarrow> treeCache \<Rightarrow> bool" where
  "detachedFrom N R s u \<longleftrightarrow>
     tc_attributes u = tc_attributes s
   \<and> tc_noteComplementPromises u = tc_noteComplementPromises s
   \<and> (\<forall>k. k \<notin> branchIds R \<longrightarrow> tc_branches u k = tc_branches s k)
   \<and> (\<forall>m. (tc_notes u m = None) = (tc_notes s m = None))
   \<and> (\<forall>m n n'. m \<notin> N \<and> tc_notes s m = Some n \<and> tc_notes u m = Some n' \<longrightarrow> framed m R n n')"

text \<open>Two notes with the same fields, the same parents and children as sets, the same
  mappings to branch ids and the same attribute indices; two caches with the same branch
  store, the same attribute store and, at every note id, notes that are the same in this
  sense (or no note on either side).\<close>

definition sameNote :: "noteShort \<Rightarrow> noteShort \<Rightarrow> bool" where
  "sameNote n n' \<longleftrightarrow>
     n_noteId n = n_noteId n' \<and> n_type n = n_type n' \<and> n_title n = n_title n'
   \<and> set (parents n) = set (parents n') \<and> set (children n) = set (children n')
   \<and> parentToBranch n = parentToBranch n' \<and> childToBranch n = childToBranch n'
   \<and> n_attributes n = n_attributes n' \<and> targetRelations n = targetRelations n'"

definition sameGraph :: "treeCache \<Rightarrow> treeCache \<Rightarrow> bool" where
  "sameGraph s t \<longleftrightarrow>
     tc_branches s = tc_branches t \<and> tc_attributes s = tc_attributes t
   \<and> tc_noteComplementPromises s = tc_noteComplementPromises t
   \<and> (\<forall>m. rel_option sameNote (tc_notes s m) (tc_notes t m))"


subsection \<open>Example inputs\<close>

definition emptyCache :: treeCache where
  "emptyCache =
     \<lparr>tc_notes = Map.empty, tc_branches = Map.empty, tc_attributes = Map.empty,
      tc_noteComplementPromises = Map.empty\<rparr>"

definition textNote :: "string \<Rightarrow> noteRow" where
  "textNote noteId = \<lparr>nr_noteId = noteId, nr_type = ''text'', nr_title = noteId\<rparr>"

definition edge :: "string \<Rightarrow> string \<Rightarrow> string \<Rightarrow> branchRow" where
  "edge branchId childId parentId =
     \<lparr>br_branchId = branchId, br_noteId = childId, br_parentNoteId = parentId,
      br_prefix = [], br_notePosition = 10, br_isDeleted = False\<rparr>"

definition relation :: "string \<Rightarrow> string \<Rightarrow> string \<Rightarrow> attributeRow" where
  "relation attributeId ownerId targetId =
     \<lparr>ar_attributeId = attributeId, ar_noteId = ownerId, ar_type = ''relation'',
      ar_name = ''link'', ar_value = targetId, ar_isDeleted = False\<rparr>"

text \<open>The cache after merging note rows and branch rows into the empty cache.\<close>

definition cacheOf :: "noteRow list \<Rightarrow> branchRow list \<Rightarrow> treeCache" where
  "cacheOf noteRows branchRows =
     foldl addBranchRow (foldl addNoteRow emptyCache noteRows) branchRows"

text \<open>A server that is never asked: it has no notes and its searches fail.\<close>

definition noServer :: server where
  "noServer =
     \<lparr>srv_treeLoad = (\<lambda>noteIds. \<lparr>resp_notes = [], resp_branches = [], resp_attributes = []\<rparr>),
      srv_searchNote = (\<lambda>noteId. None)\<rparr>"

definition sessionOf :: "treeCache \<Rightarrow> session" where
  "sessionOf s = \<lparr>cache = s, requests = [], console = []\<rparr>"



section \<open>Properties\<close>

lemmas ex_defs = emptyCache_def textNote_def edge_def relation_def cacheOf_def

lemmas merge_defs = addResp_def addNoteRow_def addBranchRow_def addAttributeRow_def
  detachNote_def detachChild_def detachParent_def childrenOf_def parentsOf_def NoteShort_def
  Branch_def Attribute_def wireChild_def wireParent_def addParent_def addChild_def
  propertyKey_def pushNew_def Let_def

lemmas sync_defs = processSyncRows_def syncPass_def emptyLoadResults_def unwireChild_def
  unwireParent_def branch_update_def attribute_update_def note_update_def addBranch_def
  addNote_def addAttribute_def dropOwnerAttribute_def dropTargetRelation_def
  pushOwnerAttribute_def pushTargetAttribute_def hasTargetNote_def

lemma addResp_nil: "addResp s [] [] [] = Inr s"
  by (simp add: addResp_def)


subsection \<open>Deleting a branch through sync\<close>

text \<open>
  C1. The claim: a branch row with \<open>isDeleted = true\<close> whose branch is in the cache
  detaches the edge from both endpoint notes and removes the branch from the branch
  store. The code detaches the edge but never deletes the entry of \<open>this.branches\<close>:
  with a parent P, a child C and the branch b1 between them in the cache, the deleted
  row for b1 empties the adjacency of both notes, and b1 is still in the branch store.
\<close>

theorem sync_deleted_branch_stays_in_store:
  "(let s = cacheOf [textNote ''P'', textNote ''C''] [edge ''b1'' ''C'' ''P''];
        r = fst (processSyncRows s
                   [BranchSync ''b1'' ((edge ''b1'' ''C'' ''P'')\<lparr>br_isDeleted := True\<rparr>) ''src''])
    in tc_branches s ''b1'' = Some (Branch (edge ''b1'' ''C'' ''P''))
     \<and> map_option parents (tc_notes s ''C'') = Some [''P'']
     \<and> map_option children (tc_notes s ''P'') = Some [''C'']
     \<and> map_option parents (tc_notes r ''C'') = Some []
     \<and> map_option children (tc_notes r ''P'') = Some []
     \<and> map_option (\<lambda>n. parentToBranch n ''P'') (tc_notes r ''C'') = Some None
     \<and> map_option (\<lambda>n. childToBranch n ''C'') (tc_notes r ''P'') = Some None
     \<and> tc_branches r ''b1'' = Some (Branch (edge ''b1'' ''C'' ''P'')))"
  by (simp add: ex_defs merge_defs sync_defs)

subsection \<open>The target-relation index\<close>

text \<open>
  C2. The claim: a relation whose target note is in the cache is added to the target's
  \<open>targetRelations\<close> by addResp and by a sync creation, and a sync deletion removes
  it from there. The code does none of the three. First conjunct: addResp of a relation
  a1 from A to B leaves \<open>targetRelations\<close> of B empty and puts a1 into
  \<open>targetRelations\<close> of the owner A. Second conjunct: the sync creation of a1 leaves
  \<open>targetRelations\<close> of B empty and puts a1 into the \<open>attributes\<close> of B. Third
  conjunct: with a relation a1 from A to A, addResp puts a1 into \<open>targetRelations\<close>
  of A, and the sync deletion of a1 leaves it there (the filter compares the attribute
  ids of the list with the value of the attribute, the note id A).
\<close>

theorem target_relations_not_maintained:
  "(case addResp (cacheOf [textNote ''A'', textNote ''B''] []) [] [] [relation ''a1'' ''A'' ''B''] of
      Inl e \<Rightarrow> False
    | Inr r \<Rightarrow> map_option targetRelations (tc_notes r ''B'') = Some []
            \<and> map_option targetRelations (tc_notes r ''A'') = Some [''a1''])
   \<and> (let r = fst (processSyncRows (cacheOf [textNote ''A'', textNote ''B''] [])
                  [AttributeSync ''a1'' (relation ''a1'' ''A'' ''B'') ''src''])
      in map_option targetRelations (tc_notes r ''B'') = Some []
       \<and> map_option n_attributes (tc_notes r ''B'') = Some [''a1''])
   \<and> (case addResp (cacheOf [textNote ''A''] []) [] [] [relation ''a1'' ''A'' ''A''] of
      Inl e \<Rightarrow> False
    | Inr s \<Rightarrow> map_option targetRelations (tc_notes s ''A'') = Some [''a1'']
       \<and> (let r = fst (processSyncRows s
                  [AttributeSync ''a1'' ((relation ''a1'' ''A'' ''A'')\<lparr>ar_isDeleted := True\<rparr>) ''src''])
          in map_option targetRelations (tc_notes r ''A'') = Some [''a1'']))"
  by (simp add: ex_defs merge_defs sync_defs)

subsection \<open>Attribute rows of notes that are not in the cache\<close>

text \<open>
  C3. The claim: addResp never raises; an attribute row whose owner note is not in the
  cache is skipped. The code reads \<open>note.attributes\<close> of the missing owner: merging
  one attribute row owned by A into the empty cache raises a TypeError.
\<close>

theorem addResp_raises_on_missing_owner:
  "addResp emptyCache [] [] [relation ''a1'' ''A'' ''B''] = Inl TypeError"
  by (simp add: ex_defs merge_defs)

subsection \<open>Lookups of missing entities\<close>

text \<open>
  C6. The claim: getBranches returns exactly the branches that are in the cache and never
  an \<open>undefined\<close> entry. getBranch evaluates to \<open>undefined\<close> for a missing id and
  the filter of getBranches drops \<open>null\<close> only: for the empty cache and the id b1,
  the result is the one-element list holding \<open>undefined\<close>, with one line logged.
\<close>

theorem getBranches_keeps_undefined:
  "getBranches emptyCache [''b1''] = ([Undefined], [NotExistingBranch ''b1''])"
  by (simp add: getBranches_def getBranch_def emptyCache_def)

subsection \<open>Branch rows between notes that are not in the cache\<close>

text \<open>
  C7. A branch row that is not deleted, whose branch id is not in the cache and neither
  of whose endpoint notes is in the cache, changes nothing: the step of the branch pass
  returns the cache and the load results it was given, and processSyncRows on the batch
  holding this row returns the cache unchanged with empty load results.
\<close>

theorem sync_branch_without_endpoints_is_noop:
  assumes "\<not> br_isDeleted entity"
    and "tc_branches s entityId = None"
    and "tc_notes s (br_noteId entity) = None"
    and "tc_notes s (br_parentNoteId entity) = None"
  shows "syncBranch (s, lr) (BranchSync entityId entity sourceId) = (s, lr)
       \<and> processSyncRows s [BranchSync entityId entity sourceId] = (s, emptyLoadResults)"
  using assms by (simp add: processSyncRows_def syncPass_def)

theorem sync_branch_without_endpoints_is_noop_witness:
  "\<not> br_isDeleted (edge ''b1'' ''C'' ''P'')
   \<and> tc_branches (cacheOf [textNote ''A''] []) ''b1'' = None
   \<and> tc_notes (cacheOf [textNote ''A''] []) ''C'' = None
   \<and> tc_notes (cacheOf [textNote ''A''] []) ''P'' = None
   \<and> tc_notes (cacheOf [textNote ''A''] []) ''A'' \<noteq> None
   \<and> processSyncRows (cacheOf [textNote ''A''] []) [BranchSync ''b1'' (edge ''b1'' ''C'' ''P'') ''src'']
       = (cacheOf [textNote ''A''] [], emptyLoadResults)"
proof -
  have 1: "\<not> br_isDeleted (edge ''b1'' ''C'' ''P'')"
    by (simp add: edge_def)
  have 2: "tc_branches (cacheOf [textNote ''A''] []) ''b1'' = None"
    by (simp add: ex_defs merge_defs)
  have 3: "tc_notes (cacheOf [textNote ''A''] []) (br_noteId (edge ''b1'' ''C'' ''P'')) = None"
    by (simp add: ex_defs merge_defs)
  have 4: "tc_notes (cacheOf [textNote ''A''] []) (br_parentNoteId (edge ''b1'' ''C'' ''P'')) = None"
    by (simp add: ex_defs merge_defs)
  have 5: "tc_notes (cacheOf [textNote ''A''] []) ''A'' \<noteq> None"
    by (simp add: ex_defs merge_defs)
  show ?thesis
    using sync_branch_without_endpoints_is_noop [OF 1 2 3 4] 1 2 3 4 5
    by (simp add: edge_def)
qed

subsection \<open>Deleted branch rows and the load results\<close>

lemma syncBranch_lr_branches:
  "set (lr_branches (snd (syncBranch st sync)))
     \<subseteq> set (lr_branches (snd st)) \<union> liveBranchEntries [sync]"
  by (cases st; cases sync)
     (auto simp: liveBranchEntries_def addBranch_def Let_def split: option.splits)

lemma liveBranchEntries_Cons:
  "liveBranchEntries (x # xs) = liveBranchEntries [x] \<union> liveBranchEntries xs"
  by (auto simp: liveBranchEntries_def)

lemma foldl_syncBranch_lr_branches:
  "set (lr_branches (snd (foldl syncBranch st syncRows)))
     \<subseteq> set (lr_branches (snd st)) \<union> liveBranchEntries syncRows"
proof (induction syncRows arbitrary: st)
  case Nil
  then show ?case by simp
next
  case (Cons x xs)
  have "set (lr_branches (snd (foldl syncBranch (syncBranch st x) xs)))
      \<subseteq> set (lr_branches (snd (syncBranch st x))) \<union> liveBranchEntries xs"
    by (rule Cons.IH)
  also have "\<dots> \<subseteq> (set (lr_branches (snd st)) \<union> liveBranchEntries [x]) \<union> liveBranchEntries xs"
    using syncBranch_lr_branches [of st x] by blast
  finally show ?case
    using liveBranchEntries_Cons [of x xs] by auto
qed

lemma liveBranchEntries_filter:
  "liveBranchEntries (filter P syncRows) \<subseteq> liveBranchEntries syncRows"
  by (auto simp: liveBranchEntries_def)

lemma syncNote_lr_branches: "lr_branches (snd (syncNote st sync)) = lr_branches (snd st)"
  by (cases st; cases sync) (auto simp: addNote_def split: option.splits)

lemma syncNoteReordering_lr_branches:
  "lr_branches (snd (syncNoteReordering st sync)) = lr_branches (snd st)"
  by (cases st; cases sync) (auto simp: addNoteReordering_def)

lemma syncAttribute_lr_branches:
  "lr_branches (snd (syncAttribute st sync)) = lr_branches (snd st)"
  by (cases st; cases sync) (auto simp: addAttribute_def Let_def split: option.splits)

lemma syncNoteContent_lr_branches:
  "lr_branches (snd (syncNoteContent st sync)) = lr_branches (snd st)"
  by (cases st; cases sync) (auto simp: addNoteContent_def)

lemma syncNoteRevision_lr_branches:
  "lr_branches (snd (syncNoteRevision st sync)) = lr_branches (snd st)"
  by (cases st; cases sync) (auto simp: addNoteRevision_def)

lemma foldl_keeps_lr_branches:
  assumes "\<And>st sync. lr_branches (snd (step st sync)) = lr_branches (snd st)"
  shows "lr_branches (snd (foldl step st syncRows)) = lr_branches (snd st)"
  by (induction syncRows arbitrary: st) (simp_all add: assms)

text \<open>
  C9. A branch row with \<open>isDeleted = true\<close> adds nothing to the load results: the step
  of the branch pass returns the load results it was given, whatever it does to the
  cache. For a whole batch, every entry of the branch list of the load results is the
  (entity id, source id) of a branch row of the batch that is not deleted.
\<close>

theorem deleted_branch_not_in_load_results:
  "(br_isDeleted entity \<longrightarrow>
      snd (syncBranch (s, lr) (BranchSync entityId entity sourceId)) = lr)
   \<and> set (lr_branches (snd (processSyncRows s syncRows))) \<subseteq> liveBranchEntries syncRows"
proof
  show "br_isDeleted entity \<longrightarrow>
      snd (syncBranch (s, lr) (BranchSync entityId entity sourceId)) = lr"
    by (simp split: option.splits)
next
  let ?st1 = "syncPass ''notes'' syncNote syncRows (s, emptyLoadResults)"
  have 1: "lr_branches (snd ?st1) = []"
    unfolding syncPass_def
    by (simp add: foldl_keeps_lr_branches [of syncNote, OF syncNote_lr_branches]
        emptyLoadResults_def)
  have 2: "set (lr_branches (snd (syncPass ''branches'' syncBranch syncRows ?st1)))
      \<subseteq> liveBranchEntries syncRows"
    unfolding syncPass_def
    using foldl_syncBranch_lr_branches
        [of ?st1 "filter (\<lambda>sync. entityName sync = ''branches'') syncRows"]
      liveBranchEntries_filter [of "\<lambda>sync. entityName sync = ''branches''" syncRows] 1
    by (auto simp: syncPass_def)
  have 3: "lr_branches (snd (processSyncRows s syncRows))
      = lr_branches (snd (syncPass ''branches'' syncBranch syncRows ?st1))"
    unfolding processSyncRows_def
    by (simp add: syncPass_def
        foldl_keeps_lr_branches [of syncNoteRevision, OF syncNoteRevision_lr_branches]
        foldl_keeps_lr_branches [of syncNoteContent, OF syncNoteContent_lr_branches]
        foldl_keeps_lr_branches [of syncAttribute, OF syncAttribute_lr_branches]
        foldl_keeps_lr_branches [of syncNoteReordering, OF syncNoteReordering_lr_branches])
  show "set (lr_branches (snd (processSyncRows s syncRows))) \<subseteq> liveBranchEntries syncRows"
    using 2 3 by simp
qed

theorem deleted_branch_not_in_load_results_witness:
  "br_isDeleted ((edge ''b1'' ''C'' ''P'')\<lparr>br_isDeleted := True\<rparr>)
   \<and> tc_branches (cacheOf [textNote ''P'', textNote ''C''] [edge ''b1'' ''C'' ''P'']) ''b1'' \<noteq> None
   \<and> snd (syncBranch (cacheOf [textNote ''P'', textNote ''C''] [edge ''b1'' ''C'' ''P''],
                      emptyLoadResults)
           (BranchSync ''b1'' ((edge ''b1'' ''C'' ''P'')\<lparr>br_isDeleted := True\<rparr>) ''src''))
       = emptyLoadResults
   \<and> lr_branches (snd (processSyncRows
         (cacheOf [textNote ''P'', textNote ''C''] [edge ''b1'' ''C'' ''P''])
         [BranchSync ''b1'' ((edge ''b1'' ''C'' ''P'')\<lparr>br_isDeleted := True\<rparr>) ''src''])) = []"
proof -
  have 1: "br_isDeleted ((edge ''b1'' ''C'' ''P'')\<lparr>br_isDeleted := True\<rparr>)"
    by simp
  have 2: "tc_branches (cacheOf [textNote ''P'', textNote ''C''] [edge ''b1'' ''C'' ''P'']) ''b1'' \<noteq> None"
    by (simp add: ex_defs merge_defs)
  have 3: "liveBranchEntries
      [BranchSync ''b1'' ((edge ''b1'' ''C'' ''P'')\<lparr>br_isDeleted := True\<rparr>) ''src''] = {}"
    by (simp add: liveBranchEntries_def)
  show ?thesis
    using deleted_branch_not_in_load_results
      [of "(edge ''b1'' ''C'' ''P'')\<lparr>br_isDeleted := True\<rparr>"
          "cacheOf [textNote ''P'', textNote ''C''] [edge ''b1'' ''C'' ''P'']"
          emptyLoadResults "''b1''" "''src''"
          "[BranchSync ''b1'' ((edge ''b1'' ''C'' ''P'')\<lparr>br_isDeleted := True\<rparr>) ''src'']"]
      1 2 3
    by simp
qed

subsection \<open>getNotes when every note is in the cache\<close>

lemma reloadNotes_nil: "reloadNotes fuel srv w [] = Some (Inr w)"
  by (cases fuel) simp_all

text \<open>
  C10. When every requested id is in the cache, the list of missing ids is empty,
  reloadNotes returns at once with the session as it was (the cache, the list of requests
  sent to the server and the console all unchanged), for every bound on the depth of
  nested fetches, and getNotes returns the notes stored at the requested ids, all of
  them objects.
\<close>

theorem getNotes_all_resident:
  assumes "\<forall>noteId \<in> set noteIds. tc_notes (cache w) noteId \<noteq> None"
  shows "reloadNotes fuel srv w (filter (\<lambda>noteId. tc_notes (cache w) noteId = None) noteIds)
           = Some (Inr w)
       \<and> getNotes fuel srv w noteIds silent
           = Some (Inr (w, map (residentNote (cache w)) noteIds))
       \<and> (\<forall>v \<in> set (map (residentNote (cache w)) noteIds). truthy v)"
proof -
  have missing: "filter (\<lambda>noteId. tc_notes (cache w) noteId = None) noteIds = []"
    using assms by (simp add: filter_empty_conv)
  have each: "\<And>noteId. noteId \<in> set noteIds \<Longrightarrow>
      lookupNote (cache w) silent noteId = (residentNote (cache w) noteId, [])
      \<and> truthy (residentNote (cache w) noteId)"
    using assms by (auto simp: lookupNote_def residentNote_def split: option.splits)
  have fsts: "map fst (map (lookupNote (cache w) silent) noteIds)
      = map (residentNote (cache w)) noteIds"
    using each by (induction noteIds) auto
  have snds: "concat (map snd (map (lookupNote (cache w) silent) noteIds)) = []"
    using each by (induction noteIds) auto
  have keep: "filter truthy (map (residentNote (cache w)) noteIds)
      = map (residentNote (cache w)) noteIds"
    using each by (induction noteIds) auto
  show ?thesis
    using missing fsts snds keep each
    by (simp add: getNotes_def getNotesWith_def reloadNotes_nil Let_def del: map_map)
qed

theorem getNotes_all_resident_witness:
  "tc_notes (cache (sessionOf (cacheOf [textNote ''A'', textNote ''B''] []))) ''A'' \<noteq> None
   \<and> tc_notes (cache (sessionOf (cacheOf [textNote ''A'', textNote ''B''] []))) ''B'' \<noteq> None
   \<and> getNotes 0 noServer (sessionOf (cacheOf [textNote ''A'', textNote ''B''] []))
       [''A'', ''B'', ''A''] False
     = Some (Inr (sessionOf (cacheOf [textNote ''A'', textNote ''B''] []),
                  [Obj (NoteShort (textNote ''A'')), Obj (NoteShort (textNote ''B'')),
                   Obj (NoteShort (textNote ''A''))]))"
proof -
  have 1: "\<forall>noteId \<in> set [''A'', ''B'', ''A''].
       tc_notes (cache (sessionOf (cacheOf [textNote ''A'', textNote ''B''] []))) noteId \<noteq> None"
    by (simp add: sessionOf_def ex_defs merge_defs)
  have 2: "map (residentNote (cache (sessionOf (cacheOf [textNote ''A'', textNote ''B''] []))))
       [''A'', ''B'', ''A'']
     = [Obj (NoteShort (textNote ''A'')), Obj (NoteShort (textNote ''B'')),
        Obj (NoteShort (textNote ''A''))]"
    by (simp add: residentNote_def sessionOf_def ex_defs merge_defs)
  show ?thesis
    using getNotes_all_resident [OF 1, of 0 noServer False] 1 2 by simp
qed

subsection \<open>The order of the passes of processSyncRows\<close>


lemma wireChild_notes:
  "tc_notes (wireChild s b) =
     (case tc_notes s (b_noteId b) of
        None \<Rightarrow> tc_notes s
      | Some n \<Rightarrow> (tc_notes s)(b_noteId b \<mapsto> addParent n (b_parentNoteId b) (b_branchId b)))"
  by (simp add: wireChild_def split: option.splits)

lemma wireParent_notes:
  "tc_notes (wireParent s b) =
     (case tc_notes s (b_parentNoteId b) of
        None \<Rightarrow> tc_notes s
      | Some n \<Rightarrow> (tc_notes s)(b_parentNoteId b \<mapsto> addChild n (b_noteId b) (b_branchId b)))"
  by (simp add: wireParent_def split: option.splits)

lemma wire_branches [simp]:
  "tc_branches (wireChild s b) = tc_branches s"
  "tc_branches (wireParent s b) = tc_branches s"
  by (simp_all add: wireChild_def wireParent_def split: option.splits)





subsection \<open>The loop over the branch rows\<close>

lemma wireNote_Nil [simp]: "wireNote m [] n = n"
  by (simp add: wireNote_def parentEdges_def childEdges_def)

lemma wireNote_Cons: "wireNote m (b # bs) n = wireNote m bs (wireNote m [b] n)"
  by (simp add: wireNote_def parentEdges_def childEdges_def)

lemma addBranchRow_notes:
  "tc_notes (addBranchRow s b) m = map_option (wireNote m [b]) (tc_notes s m)"
proof (cases "tc_notes s m")
  case None
  then show ?thesis
    by (auto simp: addBranchRow_def Let_def wireParent_notes wireChild_notes Branch_def
        split: option.splits)
next
  case (Some n)
  then show ?thesis
    by (auto simp: addBranchRow_def Let_def wireParent_notes wireChild_notes Branch_def
        wireNote_def parentEdges_def childEdges_def addParent_def addChild_def pushNew_def
        split: option.splits)
qed

lemma foldl_addBranchRow_notes:
  "tc_notes (foldl addBranchRow s bs) m = map_option (wireNote m bs) (tc_notes s m)"
proof (induction bs arbitrary: s)
  case Nil
  show ?case by (simp add: option.map_ident)
next
  case (Cons b bs)
  have "tc_notes (foldl addBranchRow s (b # bs)) m
      = map_option (wireNote m bs) (tc_notes (addBranchRow s b) m)"
    by (simp add: Cons.IH)
  also have "\<dots> = map_option (wireNote m bs) (map_option (wireNote m [b]) (tc_notes s m))"
    by (simp only: addBranchRow_notes)
  also have "\<dots> = map_option (wireNote m (b # bs)) (tc_notes s m)"
    by (cases "tc_notes s m") (simp_all add: wireNote_Cons [of m b bs])
  finally show ?case .
qed

lemma addBranchRow_branches:
  "tc_branches (addBranchRow s b) = (tc_branches s)(br_branchId b \<mapsto> Branch b)"
  by (simp add: addBranchRow_def Let_def Branch_def)

lemma storeBranches_Cons:
  "storeBranches f (b # bs) = storeBranches (f(br_branchId b \<mapsto> Branch b)) bs"
  by (rule ext) (simp add: storeBranches_def map_add_def split: option.splits)

lemma foldl_addBranchRow_branches:
  "tc_branches (foldl addBranchRow s bs) = storeBranches (tc_branches s) bs"
proof (induction bs arbitrary: s)
  case Nil
  show ?case by (simp add: storeBranches_def)
next
  case (Cons b bs)
  show ?case
    by (simp only: foldl_Cons Cons.IH addBranchRow_branches storeBranches_Cons)
qed

lemma addBranchRow_rest:
  "tc_attributes (addBranchRow s b) = tc_attributes s"
  "tc_noteComplementPromises (addBranchRow s b) = tc_noteComplementPromises s"
  by (simp_all add: addBranchRow_def Let_def wireChild_def wireParent_def split: option.splits)

lemma foldl_addBranchRow_rest:
  "tc_attributes (foldl addBranchRow s bs) = tc_attributes s"
  "tc_noteComplementPromises (foldl addBranchRow s bs) = tc_noteComplementPromises s"
  by (induction bs arbitrary: s) (simp_all add: addBranchRow_rest)

subsection \<open>The two detach loops\<close>

lemma dropParent_idem [simp]: "dropParent x (dropParent x n) = dropParent x n"
  by (simp add: dropParent_def)

lemma dropChild_idem [simp]: "dropChild x (dropChild x n) = dropChild x n"
  by (simp add: dropChild_def)

lemma detachChild_notes:
  "tc_notes (detachChild x s c) m =
     (if m = c then map_option (dropParent x) (tc_notes s c) else tc_notes s m)"
  by (simp add: detachChild_def dropParent_def split: option.splits)

lemma detachParent_notes:
  "tc_notes (detachParent x s p) m =
     (if m = p then map_option (dropChild x) (tc_notes s p) else tc_notes s m)"
  by (simp add: detachParent_def dropChild_def split: option.splits)

lemma detachChildren_notes:
  "tc_notes (foldl (detachChild x) s cs) m =
     (if m \<in> set cs then map_option (dropParent x) (tc_notes s m) else tc_notes s m)"
proof (induction cs arbitrary: s)
  case Nil
  show ?case by simp
next
  case (Cons c cs)
  show ?case
    by (cases "tc_notes s m") (auto simp: Cons.IH detachChild_notes)
qed

lemma detachParents_notes:
  "tc_notes (foldl (detachParent x) s ps) m =
     (if m \<in> set ps then map_option (dropChild x) (tc_notes s m) else tc_notes s m)"
proof (induction ps arbitrary: s)
  case Nil
  show ?case by simp
next
  case (Cons p ps)
  show ?case
    by (cases "tc_notes s m") (auto simp: Cons.IH detachParent_notes)
qed

lemma detachChild_branches:
  "tc_branches (detachChild x s c) k =
     (case tc_notes s c of
        None \<Rightarrow> tc_branches s k
      | Some n \<Rightarrow> if k = propertyKey (parentToBranch n x) then None else tc_branches s k)"
  by (simp add: detachChild_def split: option.splits)

lemma detachParent_branches:
  "tc_branches (detachParent x s p) k =
     (case tc_notes s p of
        None \<Rightarrow> tc_branches s k
      | Some n \<Rightarrow> if k = propertyKey (childToBranch n x) then None else tc_branches s k)"
  by (simp add: detachParent_def split: option.splits)

lemma detachChildren_branches:
  assumes "distinct cs"
    and "\<And>c n. c \<in> set cs \<Longrightarrow> tc_notes s c = Some n \<Longrightarrow> propertyKey (parentToBranch n x) \<in> K"
    and "k \<notin> K"
  shows "tc_branches (foldl (detachChild x) s cs) k = tc_branches s k"
  using assms
proof (induction cs arbitrary: s)
  case Nil
  show ?case by simp
next
  case (Cons c cs)
  have step: "tc_branches (detachChild x s c) k = tc_branches s k"
    using Cons.prems(2) [of c] Cons.prems(3)
    by (auto simp: detachChild_branches split: option.splits)
  have "tc_branches (foldl (detachChild x) (detachChild x s c) cs) k
      = tc_branches (detachChild x s c) k"
  proof (rule Cons.IH)
    show "distinct cs" using Cons.prems(1) by simp
    show "k \<notin> K" by (rule Cons.prems(3))
    fix c' n
    assume c': "c' \<in> set cs" and n: "tc_notes (detachChild x s c) c' = Some n"
    from c' Cons.prems(1) have "c' \<noteq> c" by auto
    with n have "tc_notes s c' = Some n" by (simp add: detachChild_notes)
    with c' show "propertyKey (parentToBranch n x) \<in> K"
      using Cons.prems(2) [of c' n] by simp
  qed
  with step show ?case by simp
qed

lemma detachParents_branches:
  assumes "distinct ps"
    and "\<And>p n. p \<in> set ps \<Longrightarrow> tc_notes s p = Some n \<Longrightarrow> propertyKey (childToBranch n x) \<in> K"
    and "k \<notin> K"
  shows "tc_branches (foldl (detachParent x) s ps) k = tc_branches s k"
  using assms
proof (induction ps arbitrary: s)
  case Nil
  show ?case by simp
next
  case (Cons p ps)
  have step: "tc_branches (detachParent x s p) k = tc_branches s k"
    using Cons.prems(2) [of p] Cons.prems(3)
    by (auto simp: detachParent_branches split: option.splits)
  have "tc_branches (foldl (detachParent x) (detachParent x s p) ps) k
      = tc_branches (detachParent x s p) k"
  proof (rule Cons.IH)
    show "distinct ps" using Cons.prems(1) by simp
    show "k \<notin> K" by (rule Cons.prems(3))
    fix p' n
    assume p': "p' \<in> set ps" and n: "tc_notes (detachParent x s p) p' = Some n"
    from p' Cons.prems(1) have "p' \<noteq> p" by auto
    with n have "tc_notes s p' = Some n" by (simp add: detachParent_notes)
    with p' show "propertyKey (childToBranch n x) \<in> K"
      using Cons.prems(2) [of p' n] by simp
  qed
  with step show ?case by simp
qed

lemma detachChild_rest:
  "tc_attributes (detachChild x s c) = tc_attributes s"
  "tc_noteComplementPromises (detachChild x s c) = tc_noteComplementPromises s"
  by (simp_all add: detachChild_def split: option.splits)

lemma detachParent_rest:
  "tc_attributes (detachParent x s c) = tc_attributes s"
  "tc_noteComplementPromises (detachParent x s c) = tc_noteComplementPromises s"
  by (simp_all add: detachParent_def split: option.splits)

lemma detachChildren_rest:
  "tc_attributes (foldl (detachChild x) s cs) = tc_attributes s"
  "tc_noteComplementPromises (foldl (detachChild x) s cs) = tc_noteComplementPromises s"
  by (induction cs arbitrary: s) (simp_all add: detachChild_rest)

lemma detachParents_rest:
  "tc_attributes (foldl (detachParent x) s ps) = tc_attributes s"
  "tc_noteComplementPromises (foldl (detachParent x) s ps) = tc_noteComplementPromises s"
  by (induction ps arbitrary: s) (simp_all add: detachParent_rest)

lemma detachNote_rest:
  "tc_attributes (detachNote s x) = tc_attributes s"
  "tc_noteComplementPromises (detachNote s x) = tc_noteComplementPromises s"
  by (simp_all add: detachNote_def Let_def detachChildren_rest detachParents_rest)

lemma detachNote_notes:
  "tc_notes (detachNote s x) m = map_option (detached s x m) (tc_notes s m)"
  by (cases "tc_notes s m")
     (simp_all add: detachNote_def Let_def detachParents_notes detachChildren_notes detached_def)

lemma parentsOf_detachChildren:
  "parentsOf (foldl (detachChild x) s cs) x =
     (if x \<in> set cs then filter (\<lambda>p. p \<noteq> x) (parentsOf s x) else parentsOf s x)"
  by (cases "tc_notes s x") (simp_all add: parentsOf_def detachChildren_notes dropParent_def)

subsection \<open>The invariant of the note loop\<close>

lemma parentsAfter_eq:
  "parentsAfter s x =
     (if x \<in> set (childrenOf s x) then filter (\<lambda>p. p \<noteq> x) (parentsOf s x) else parentsOf s x)"
  by (simp add: parentsAfter_def parentsOf_detachChildren)

lemma parentsAfter_mem: "m \<noteq> x \<Longrightarrow> m \<in> set (parentsAfter s x) \<longleftrightarrow> m \<in> set (parentsOf s x)"
  by (simp add: parentsAfter_eq)

lemma parentsAfter_subset: "set (parentsAfter s x) \<subseteq> set (parentsOf s x)"
  by (simp add: parentsAfter_eq)

lemma parentsAfter_distinct: "distinct (parentsOf s x) \<Longrightarrow> distinct (parentsAfter s x)"
  by (simp add: parentsAfter_eq)

lemma detached_fields:
  "n_noteId (detached s x m n) = n_noteId n"
  "n_type (detached s x m n) = n_type n"
  "n_title (detached s x m n) = n_title n"
  "n_attributes (detached s x m n) = n_attributes n"
  "targetRelations (detached s x m n) = targetRelations n"
  "parents (detached s x m n) =
     (if m \<in> set (childrenOf s x) then filter (\<lambda>p. p \<noteq> x) (parents n) else parents n)"
  "parentToBranch (detached s x m n) =
     (if m \<in> set (childrenOf s x) then (parentToBranch n)(x := None) else parentToBranch n)"
  "children (detached s x m n) =
     (if m \<in> set (parentsAfter s x) then filter (\<lambda>p. p \<noteq> x) (children n) else children n)"
  "childToBranch (detached s x m n) =
     (if m \<in> set (parentsAfter s x) then (childToBranch n)(x := None) else childToBranch n)"
  by (simp_all add: detached_def dropParent_def dropChild_def Let_def parentsAfter_def)

lemma addNoteRow_notes:
  "tc_notes (addNoteRow s row) m =
     (if m = nr_noteId row then Some (NoteShort row)
      else map_option (detached s (nr_noteId row) m) (tc_notes s m))"
  by (simp add: addNoteRow_def Let_def detachNote_notes)

lemma addNoteRow_rest:
  "tc_attributes (addNoteRow s row) = tc_attributes s"
  "tc_noteComplementPromises (addNoteRow s row) = tc_noteComplementPromises s"
  "tc_branches (addNoteRow s row) = tc_branches (detachNote s (nr_noteId row))"
  by (simp_all add: addNoteRow_def Let_def detachNote_rest)

lemma childIds_parentIds: "m \<in> childIds x R \<longleftrightarrow> x \<in> parentIds m R"
  by (auto simp: childIds_def parentIds_def childEdges_def parentEdges_def image_iff)

lemma batchWiredD:
  assumes "batchWired N R u" "m \<in> N" "tc_notes u m = Some n"
  shows "distinct (children n)" "distinct (parents n)"
    "set (children n) \<subseteq> childIds m R" "set (parents n) \<subseteq> parentIds m R"
    "\<And>c nc. c \<in> set (children n) \<Longrightarrow> tc_notes u c = Some nc \<Longrightarrow>
        m \<in> set (parents nc) \<and> (\<exists>b \<in> branchIds R. parentToBranch nc m = Some b)"
    "\<And>p np. p \<in> set (parents n) \<Longrightarrow> tc_notes u p = Some np \<Longrightarrow>
        m \<in> set (children np) \<and> (\<exists>b \<in> branchIds R. childToBranch np m = Some b)"
  using assms unfolding batchWired_def by blast+

lemma addNoteRow_batchWired:
  assumes inv: "batchWired N R u"
    and xN: "nr_noteId row \<in> N"
    and res: "tc_notes u (nr_noteId row) = Some nx"
  shows "batchWired N R (addNoteRow u row)"
  unfolding batchWired_def
proof (intro allI impI, elim conjE)
  fix m n'
  define x where "x = nr_noteId row"
  assume mN: "m \<in> N" and n': "tc_notes (addNoteRow u row) m = Some n'"
  have cx: "childrenOf u x = children nx" and px: "parentsOf u x = parents nx"
    using res by (simp_all add: childrenOf_def parentsOf_def x_def)
  show "distinct (children n') \<and> distinct (parents n')
      \<and> set (children n') \<subseteq> childIds m R \<and> set (parents n') \<subseteq> parentIds m R
      \<and> (\<forall>c nc. c \<in> set (children n') \<and> tc_notes (addNoteRow u row) c = Some nc \<longrightarrow>
            m \<in> set (parents nc) \<and> (\<exists>b \<in> branchIds R. parentToBranch nc m = Some b))
      \<and> (\<forall>p np. p \<in> set (parents n') \<and> tc_notes (addNoteRow u row) p = Some np \<longrightarrow>
            m \<in> set (children np) \<and> (\<exists>b \<in> branchIds R. childToBranch np m = Some b))"
  proof (cases "m = x")
    case True
    with n' have "n' = NoteShort row" by (simp add: addNoteRow_notes x_def)
    then show ?thesis by (simp add: NoteShort_def)
  next
    case False
    with n' obtain n where n: "tc_notes u m = Some n" and n'_eq: "n' = detached u x m n"
      by (auto simp: addNoteRow_notes x_def)
    note invm = batchWiredD [OF inv mN n]
    have ch: "set (children n') \<subseteq> set (children n)" and pa: "set (parents n') \<subseteq> set (parents n)"
      by (auto simp: n'_eq detached_fields)
    have d: "distinct (children n')" "distinct (parents n')"
      using invm(1,2) by (simp_all add: n'_eq detached_fields)
    have sub: "set (children n') \<subseteq> childIds m R" "set (parents n') \<subseteq> parentIds m R"
      using ch pa invm(3,4) by blast+
    have A: "m \<in> set (parents nc) \<and> (\<exists>b \<in> branchIds R. parentToBranch nc m = Some b)"
      if c: "c \<in> set (children n')" and nc: "tc_notes (addNoteRow u row) c = Some nc" for c nc
    proof (cases "c = x")
      case True
      with c ch have "x \<in> set (children n)" by auto
      from invm(5) [OF this res [folded x_def]] have "m \<in> set (parents nx)" by simp
      with False have "m \<in> set (parentsAfter u x)"
        by (simp add: parentsAfter_mem px)
      then have "x \<notin> set (children n')"
        by (simp add: n'_eq detached_fields)
      with c True show ?thesis by simp
    next
      case cx': False
      with nc obtain nc0 where nc0: "tc_notes u c = Some nc0" and nc_eq: "nc = detached u x c nc0"
        by (auto simp: addNoteRow_notes x_def)
      from c ch have "c \<in> set (children n)" by auto
      from invm(5) [OF this nc0] False show ?thesis
        by (auto simp: nc_eq detached_fields)
    qed
    have B: "m \<in> set (children np) \<and> (\<exists>b \<in> branchIds R. childToBranch np m = Some b)"
      if p: "p \<in> set (parents n')" and np: "tc_notes (addNoteRow u row) p = Some np" for p np
    proof (cases "p = x")
      case True
      with p pa have "x \<in> set (parents n)" by auto
      from invm(6) [OF this res [folded x_def]] have "m \<in> set (children nx)" by simp
      then have "m \<in> set (childrenOf u x)" by (simp add: cx)
      then have "x \<notin> set (parents n')"
        by (simp add: n'_eq detached_fields)
      with p True show ?thesis by simp
    next
      case px': False
      with np obtain np0 where np0: "tc_notes u p = Some np0" and np_eq: "np = detached u x p np0"
        by (auto simp: addNoteRow_notes x_def)
      from p pa have "p \<in> set (parents n)" by auto
      from invm(6) [OF this np0] False show ?thesis
        by (auto simp: np_eq detached_fields)
    qed
    from d sub A B show ?thesis by blast
  qed
qed

subsection \<open>What the note loop leaves unchanged\<close>

lemma framed_refl: "framed m R n n"
  by (auto simp: framed_def)

lemma detachedFrom_refl: "detachedFrom N R s s"
  by (auto simp: detachedFrom_def framed_refl)

lemma detachNote_branches:
  assumes inv: "batchWired N R u"
    and xN: "x \<in> N"
    and res: "tc_notes u x = Some nx"
    and k: "k \<notin> branchIds R"
  shows "tc_branches (detachNote u x) k = tc_branches u k"
proof -
  note invx = batchWiredD [OF inv xN res]
  have cx: "childrenOf u x = children nx" and px: "parentsOf u x = parents nx"
    using res by (simp_all add: childrenOf_def parentsOf_def)
  let ?uc = "foldl (detachChild x) u (childrenOf u x)"
  have 1: "tc_branches ?uc k = tc_branches u k"
  proof (rule detachChildren_branches [where K = "branchIds R"])
    show "distinct (childrenOf u x)" using invx(1) by (simp add: cx)
    show "k \<notin> branchIds R" by (rule k)
    fix c n
    assume "c \<in> set (childrenOf u x)" and n: "tc_notes u c = Some n"
    then have "c \<in> set (children nx)" by (simp add: cx)
    from invx(5) [OF this n] show "propertyKey (parentToBranch n x) \<in> branchIds R"
      by (auto simp: propertyKey_def)
  qed
  have 2: "tc_branches (foldl (detachParent x) ?uc (parentsAfter u x)) k = tc_branches ?uc k"
  proof (rule detachParents_branches [where K = "branchIds R"])
    show "distinct (parentsAfter u x)"
      using invx(2) by (simp add: parentsAfter_distinct px)
    show "k \<notin> branchIds R" by (rule k)
    fix p n
    assume p: "p \<in> set (parentsAfter u x)" and n: "tc_notes ?uc p = Some n"
    from p have pp: "p \<in> set (parents nx)"
      using parentsAfter_subset [of u x] by (auto simp: px)
    from n obtain n0 where n0: "tc_notes u p = Some n0"
      and ctb: "childToBranch n = childToBranch n0"
      by (auto simp: detachChildren_notes dropParent_def split: if_splits)
    from invx(6) [OF pp n0] show "propertyKey (childToBranch n x) \<in> branchIds R"
      by (auto simp: propertyKey_def ctb)
  qed
  show ?thesis
    using 1 2 by (simp add: detachNote_def Let_def parentsAfter_def)
qed

lemma addNoteRow_detachedFrom:
  assumes inv: "batchWired N R u"
    and xN: "nr_noteId row \<in> N"
    and res: "tc_notes u (nr_noteId row) = Some nx"
    and rel: "detachedFrom N R s u"
  shows "detachedFrom N R s (addNoteRow u row)"
proof -
  define x where "x = nr_noteId row"
  have xN': "x \<in> N" and res': "tc_notes u x = Some nx"
    using xN res by (simp_all add: x_def)
  note invx = batchWiredD [OF inv xN' res']
  have cx: "childrenOf u x = children nx" and px: "parentsOf u x = parents nx"
    using res' by (simp_all add: childrenOf_def parentsOf_def)
  have a: "tc_attributes (addNoteRow u row) = tc_attributes s"
    "tc_noteComplementPromises (addNoteRow u row) = tc_noteComplementPromises s"
    using rel by (simp_all add: addNoteRow_rest detachedFrom_def)
  have b: "tc_branches (addNoteRow u row) k = tc_branches s k" if "k \<notin> branchIds R" for k
    using detachNote_branches [OF inv xN res that] rel that
    by (simp add: addNoteRow_rest detachedFrom_def)
  have dom: "(tc_notes u m = None) = (tc_notes s m = None)" for m
    using rel by (simp add: detachedFrom_def)
  have c: "(tc_notes (addNoteRow u row) m = None) = (tc_notes s m = None)" for m
    using dom [of m] dom [of "nr_noteId row"] res by (auto simp: addNoteRow_notes)
  have d: "framed m R n n''"
    if m: "m \<notin> N" and n: "tc_notes s m = Some n" and n'': "tc_notes (addNoteRow u row) m = Some n''"
    for m n n''
  proof -
    from m xN' have mx: "m \<noteq> x" by auto
    with n'' obtain n' where n': "tc_notes u m = Some n'" and n''_eq: "n'' = detached u x m n'"
      by (auto simp: addNoteRow_notes x_def [symmetric])
    from rel m n n' have f: "framed m R n n'" by (auto simp: detachedFrom_def)
    have p: "x \<in> parentIds m R" if "m \<in> set (childrenOf u x)"
      using that invx(3) by (auto simp: cx childIds_parentIds [symmetric])
    have q: "x \<in> childIds m R" if "m \<in> set (parentsAfter u x)"
      using that invx(4) parentsAfter_subset [of u x]
      by (auto simp: px childIds_parentIds)
    show ?thesis
      using f p q unfolding framed_def n''_eq detached_fields
      by (auto split: if_splits)
  qed
  show ?thesis
    unfolding detachedFrom_def using a b c d by blast
qed

lemma foldl_addNoteRow_detached:
  assumes "batchWired N R u"
    and "nr_noteId ` set rows \<subseteq> N"
    and "\<forall>x \<in> N. tc_notes u x \<noteq> None"
    and "detachedFrom N R s u"
  shows "detachedFrom N R s (foldl addNoteRow u rows)"
  using assms
proof (induction rows arbitrary: u)
  case Nil
  then show ?case by simp
next
  case (Cons row rows)
  from Cons.prems(2) have xN: "nr_noteId row \<in> N" by simp
  with Cons.prems(3) obtain nx where res: "tc_notes u (nr_noteId row) = Some nx" by auto
  have 1: "batchWired N R (addNoteRow u row)"
    by (rule addNoteRow_batchWired [OF Cons.prems(1) xN res])
  have 2: "detachedFrom N R s (addNoteRow u row)"
    by (rule addNoteRow_detachedFrom [OF Cons.prems(1) xN res Cons.prems(4)])
  have 3: "\<forall>x \<in> N. tc_notes (addNoteRow u row) x \<noteq> None"
    using Cons.prems(3) by (auto simp: addNoteRow_notes)
  from Cons.prems(2) have 4: "nr_noteId ` set rows \<subseteq> N" by simp
  show ?case
    using Cons.IH [OF 1 4 3 2] by simp
qed

subsection \<open>Fresh notes and the loop over the attribute rows\<close>

lemma set_foldl_pushNew: "set (foldl pushNew xs ys) = set xs \<union> set ys"
  by (induction ys arbitrary: xs) (auto simp: pushNew_def)

lemma distinct_foldl_pushNew: "distinct xs \<Longrightarrow> distinct (foldl pushNew xs ys)"
  by (induction ys arbitrary: xs) (auto simp: pushNew_def)

lemma foldl_pushNew_absorb: "set ys \<subseteq> set xs \<Longrightarrow> foldl pushNew xs ys = xs"
  by (induction ys arbitrary: xs) (auto simp: pushNew_def)

lemma foldl_pushNew_idem: "foldl pushNew (foldl pushNew xs ys) ys = foldl pushNew xs ys"
  by (rule foldl_pushNew_absorb) (simp add: set_foldl_pushNew)

lemma map_add_idem: "(f ++ g) ++ g = f ++ g"
  by (rule ext) (simp add: map_add_def split: option.splits)

lemma map_of_rev_mem:
  assumes "k \<in> fst ` set es"
  shows "\<exists>v. map_of (rev es) k = Some v \<and> (k, v) \<in> set es"
proof -
  from assms have "k \<in> fst ` set (rev es)" by simp
  then obtain v where v: "map_of (rev es) k = Some v"
    by (cases "map_of (rev es) k") (auto simp: map_of_eq_None_iff)
  then have "(k, v) \<in> set (rev es)" by (rule map_of_SomeD)
  with v show ?thesis by auto
qed

lemma map_of_rev_not_mem: "k \<notin> fst ` set es \<Longrightarrow> map_of (rev es) k = None"
  by (simp add: map_of_eq_None_iff)

lemma detached_fresh: "detached s x m (NoteShort r) = NoteShort r"
  by (simp add: detached_def dropParent_def dropChild_def NoteShort_def Let_def)

lemma fresh_kept:
  "tc_notes u m = Some (NoteShort r) \<Longrightarrow> m \<notin> nr_noteId ` set rows
     \<Longrightarrow> tc_notes (foldl addNoteRow u rows) m = Some (NoteShort r)"
  by (induction rows arbitrary: u) (auto simp: addNoteRow_notes detached_fresh)

lemma batch_notes_fresh:
  "m \<in> nr_noteId ` set rows
     \<Longrightarrow> \<exists>r \<in> set rows. nr_noteId r = m \<and> (\<forall>u. tc_notes (foldl addNoteRow u rows) m = Some (NoteShort r))"
proof (induction rows)
  case Nil
  then show ?case by simp
next
  case (Cons a rows)
  show ?case
  proof (cases "m \<in> nr_noteId ` set rows")
    case True
    from Cons.IH [OF this] show ?thesis by auto
  next
    case False
    with Cons.prems have m: "nr_noteId a = m" by auto
    have "tc_notes (foldl addNoteRow u (a # rows)) m = Some (NoteShort a)" for u
      using fresh_kept [of "addNoteRow u a" m a rows] False m
      by (simp add: addNoteRow_notes)
    with m show ?thesis by auto
  qed
qed

lemma foldl_addNoteRow_dom:
  "(tc_notes (foldl addNoteRow u rows) m = None)
     = (tc_notes u m = None \<and> m \<notin> nr_noteId ` set rows)"
  by (induction rows arbitrary: u) (auto simp: addNoteRow_notes)

lemma foldl_addNoteRow_rest:
  "tc_attributes (foldl addNoteRow u rows) = tc_attributes u"
  "tc_noteComplementPromises (foldl addNoteRow u rows) = tc_noteComplementPromises u"
  by (induction rows arbitrary: u) (simp_all add: addNoteRow_rest)

lemma storeAttributes_Cons:
  "storeAttributes f (r # rs) = storeAttributes (f(ar_attributeId r \<mapsto> Attribute r)) rs"
  by (rule ext) (simp add: storeAttributes_def map_add_def split: option.splits)

lemma indexNote_Nil [simp]: "indexNote D [] m n = n"
  by (simp add: indexNote_def ownedIds_def ownedRelationIds_def)

lemma indexNote_Cons: "indexNote D (r # rs) m n = indexNote D rs m (indexNote D [r] m n)"
  by (simp add: indexNote_def ownedIds_def ownedRelationIds_def)

lemma addAttributeRow_Inr:
  assumes "addAttributeRow s r = Inr s'"
  shows "tc_notes s (ar_noteId r) \<noteq> None"
    and "tc_notes s' m = map_option (indexNote (dom (tc_notes s)) [r] m) (tc_notes s m)"
    and "tc_attributes s' = (tc_attributes s)(ar_attributeId r \<mapsto> Attribute r)"
    and "tc_branches s' = tc_branches s"
    and "tc_noteComplementPromises s' = tc_noteComplementPromises s"
proof -
  from assms obtain n0 where n0: "tc_notes s (ar_noteId r) = Some n0"
    by (auto simp: addAttributeRow_def Let_def split: option.splits)
  then show "tc_notes s (ar_noteId r) \<noteq> None" by simp
  from assms n0 show "tc_attributes s' = (tc_attributes s)(ar_attributeId r \<mapsto> Attribute r)"
    "tc_branches s' = tc_branches s"
    "tc_noteComplementPromises s' = tc_noteComplementPromises s"
    by (auto simp: addAttributeRow_def Let_def split: option.splits)
  show "tc_notes s' m = map_option (indexNote (dom (tc_notes s)) [r] m) (tc_notes s m)"
  proof (cases "m = ar_noteId r")
    case True
    with assms n0 show ?thesis
      by (auto simp: addAttributeRow_def Let_def indexNote_def ownedIds_def ownedRelationIds_def
          dom_def split: option.splits)
  next
    case False
    with assms n0 show ?thesis
      by (cases "tc_notes s m")
         (auto simp: addAttributeRow_def Let_def indexNote_def ownedIds_def ownedRelationIds_def
          split: option.splits)
  qed
qed

lemma addAttributeRow_ok:
  "tc_notes s (ar_noteId r) \<noteq> None \<Longrightarrow> \<exists>s'. addAttributeRow s r = Inr s'"
  by (auto simp: addAttributeRow_def Let_def split: option.splits)

lemma addAttributeRows_Inr:
  assumes "addAttributeRows s rs = Inr s'"
  shows "(\<forall>r \<in> set rs. tc_notes s (ar_noteId r) \<noteq> None)
       \<and> (\<forall>m. tc_notes s' m = map_option (indexNote (dom (tc_notes s)) rs m) (tc_notes s m))
       \<and> tc_attributes s' = storeAttributes (tc_attributes s) rs
       \<and> tc_branches s' = tc_branches s
       \<and> tc_noteComplementPromises s' = tc_noteComplementPromises s"
  using assms
proof (induction rs arbitrary: s)
  case Nil
  then show ?case by (simp add: storeAttributes_def option.map_ident)
next
  case (Cons r rs)
  from Cons.prems obtain s1 where s1: "addAttributeRow s r = Inr s1"
    and rest: "addAttributeRows s1 rs = Inr s'"
    by (auto split: sum.splits)
  note one = addAttributeRow_Inr [OF s1]
  note ih = Cons.IH [OF rest]
  have dom: "dom (tc_notes s1) = dom (tc_notes s)"
    by (auto simp: one(2) dom_def)
  have nts: "tc_notes s' m = map_option (indexNote (dom (tc_notes s)) (r # rs) m) (tc_notes s m)" for m
  proof -
    have "tc_notes s' m = map_option (indexNote (dom (tc_notes s)) rs m) (tc_notes s1 m)"
      using ih dom by simp
    also have "\<dots> = map_option (indexNote (dom (tc_notes s)) (r # rs) m) (tc_notes s m)"
      by (cases "tc_notes s m") (simp_all add: one(2) indexNote_Cons [of _ r rs])
    finally show ?thesis .
  qed
  have owners: "\<forall>r' \<in> set (r # rs). tc_notes s (ar_noteId r') \<noteq> None"
  proof
    fix r' assume "r' \<in> set (r # rs)"
    then consider "r' = r" | "r' \<in> set rs" by auto
    then show "tc_notes s (ar_noteId r') \<noteq> None"
    proof cases
      case 1
      with one(1) show ?thesis by simp
    next
      case 2
      with ih have "tc_notes s1 (ar_noteId r') \<noteq> None" by blast
      then have "ar_noteId r' \<in> dom (tc_notes s1)" by auto
      with dom show ?thesis by auto
    qed
  qed
  from ih have "tc_attributes s' = storeAttributes (tc_attributes s1) rs" by blast
  then have attrs: "tc_attributes s' = storeAttributes (tc_attributes s) (r # rs)"
    by (simp only: one(3) storeAttributes_Cons)
  from ih one have "tc_branches s' = tc_branches s"
    "tc_noteComplementPromises s' = tc_noteComplementPromises s" by simp_all
  with nts owners attrs show ?case by blast
qed

lemma addAttributeRows_ok:
  "\<forall>r \<in> set rs. tc_notes s (ar_noteId r) \<noteq> None \<Longrightarrow> \<exists>s'. addAttributeRows s rs = Inr s'"
proof (induction rs arbitrary: s)
  case Nil
  then show ?case by simp
next
  case (Cons r rs)
  from Cons.prems obtain s1 where s1: "addAttributeRow s r = Inr s1"
    using addAttributeRow_ok [of s r] by auto
  have "dom (tc_notes s1) = dom (tc_notes s)"
    by (auto simp: addAttributeRow_Inr(2) [OF s1] dom_def)
  with Cons.prems have "\<forall>r \<in> set rs. tc_notes s1 (ar_noteId r) \<noteq> None"
    by (auto simp: dom_def)
  from Cons.IH [OF this] s1 show ?case by auto
qed

subsection \<open>Merging into a merged cache\<close>

lemma merged_fields:
  "n_noteId (merged D R A m n) = n_noteId n"
  "n_type (merged D R A m n) = n_type n"
  "n_title (merged D R A m n) = n_title n"
  "parents (merged D R A m n) = foldl pushNew (parents n) (map fst (parentEdges m R))"
  "children (merged D R A m n) = foldl pushNew (children n) (map fst (childEdges m R))"
  "parentToBranch (merged D R A m n) = parentToBranch n ++ map_of (rev (parentEdges m R))"
  "childToBranch (merged D R A m n) = childToBranch n ++ map_of (rev (childEdges m R))"
  "n_attributes (merged D R A m n) = foldl pushNew (n_attributes n) (ownedIds m A)"
  "targetRelations (merged D R A m n) = foldl pushNew (targetRelations n) (ownedRelationIds D m A)"
  by (simp_all add: merged_def indexNote_def wireNote_def)

lemma merged_sets:
  "set (parents (merged D R A m n)) = set (parents n) \<union> parentIds m R"
  "set (children (merged D R A m n)) = set (children n) \<union> childIds m R"
  by (simp_all add: merged_fields set_foldl_pushNew parentIds_def childIds_def)

lemma map_add_edges:
  "(f ++ map_of (rev es)) k = (if k \<in> fst ` set es then map_of (rev es) k else f k)"
proof (cases "k \<in> fst ` set es")
  case True
  with map_of_rev_mem [of k es] show ?thesis
    by (auto simp: map_add_def)
next
  case False
  with map_of_rev_not_mem [of k es] show ?thesis
    by (simp add: map_add_def)
qed

lemma edge_branchIds:
  "(k, v) \<in> set (parentEdges m R) \<Longrightarrow> v \<in> branchIds R"
  "(k, v) \<in> set (childEdges m R) \<Longrightarrow> v \<in> branchIds R"
  by (auto simp: parentEdges_def childEdges_def branchIds_def)

lemma merged_parentToBranch:
  assumes "p \<in> parentIds m R"
  shows "\<exists>b \<in> branchIds R. parentToBranch (merged D R A m n) p = Some b"
proof -
  from assms obtain v where "map_of (rev (parentEdges m R)) p = Some v"
    and "(p, v) \<in> set (parentEdges m R)"
    using map_of_rev_mem [of p "parentEdges m R"] by (auto simp: parentIds_def)
  with assms show ?thesis
    using edge_branchIds(1) [of p v m R]
    by (auto simp: merged_fields map_add_edges parentIds_def)
qed

lemma merged_childToBranch:
  assumes "c \<in> childIds m R"
  shows "\<exists>b \<in> branchIds R. childToBranch (merged D R A m n) c = Some b"
proof -
  from assms obtain v where "map_of (rev (childEdges m R)) c = Some v"
    and "(c, v) \<in> set (childEdges m R)"
    using map_of_rev_mem [of c "childEdges m R"] by (auto simp: childIds_def)
  with assms show ?thesis
    using edge_branchIds(2) [of c v m R]
    by (auto simp: merged_fields map_add_edges childIds_def)
qed

text \<open>After the branch rows and the attribute rows have been merged into a cache whose
  batch notes are fresh, the batch notes are wired as the invariant says.\<close>

lemma merged_batchWired:
  assumes fresh: "\<And>m. m \<in> N \<Longrightarrow> \<exists>r. tc_notes u0 m = Some (NoteShort r)"
    and s1: "\<And>m. tc_notes s1 m = map_option (merged D R A m) (tc_notes u0 m)"
  shows "batchWired N R s1"
  unfolding batchWired_def
proof (intro allI impI, elim conjE)
  fix m n
  assume mN: "m \<in> N" and n: "tc_notes s1 m = Some n"
  from fresh [OF mN] obtain r where r: "tc_notes u0 m = Some (NoteShort r)" by auto
  with n s1 [of m] have n_eq: "n = merged D R A m (NoteShort r)" by simp
  have ch: "set (children n) = childIds m R" and pa: "set (parents n) = parentIds m R"
    by (simp_all add: n_eq merged_sets NoteShort_def)
  have d: "distinct (children n)" "distinct (parents n)"
    by (simp_all add: n_eq merged_fields distinct_foldl_pushNew NoteShort_def)
  have A: "m \<in> set (parents nc) \<and> (\<exists>b \<in> branchIds R. parentToBranch nc m = Some b)"
    if c: "c \<in> set (children n)" and nc: "tc_notes s1 c = Some nc" for c nc
  proof -
    from c ch have mc: "m \<in> parentIds c R" by (simp add: childIds_parentIds)
    from nc s1 [of c] obtain nc0 where "nc = merged D R A c nc0" by auto
    with mc merged_parentToBranch [OF mc, of D A nc0] show ?thesis
      by (simp add: merged_sets)
  qed
  have B: "m \<in> set (children np) \<and> (\<exists>b \<in> branchIds R. childToBranch np m = Some b)"
    if p: "p \<in> set (parents n)" and np: "tc_notes s1 p = Some np" for p np
  proof -
    from p pa have mp: "m \<in> childIds p R" by (simp add: childIds_parentIds)
    from np s1 [of p] obtain np0 where "np = merged D R A p np0" by auto
    with mp merged_childToBranch [OF mp, of D A np0] show ?thesis
      by (simp add: merged_sets)
  qed
  from ch pa d A B
  show "distinct (children n) \<and> distinct (parents n)
      \<and> set (children n) \<subseteq> childIds m R \<and> set (parents n) \<subseteq> parentIds m R
      \<and> (\<forall>c nc. c \<in> set (children n) \<and> tc_notes s1 c = Some nc \<longrightarrow>
            m \<in> set (parents nc) \<and> (\<exists>b \<in> branchIds R. parentToBranch nc m = Some b))
      \<and> (\<forall>p np. p \<in> set (parents n) \<and> tc_notes s1 p = Some np \<longrightarrow>
            m \<in> set (children np) \<and> (\<exists>b \<in> branchIds R. childToBranch np m = Some b))"
    by blast
qed

lemma merged_framed:
  assumes "framed m R (merged D R A m n0) n1"
  shows "sameNote (merged D R A m n0) (merged D R A m n1)"
proof -
  let ?n = "merged D R A m n0"
  from assms have f: "n_noteId n1 = n_noteId ?n" "n_type n1 = n_type ?n" "n_title n1 = n_title ?n"
    "n_attributes n1 = n_attributes ?n" "targetRelations n1 = targetRelations ?n"
    "set (parents n1) \<subseteq> set (parents ?n)" "set (parents ?n) \<subseteq> set (parents n1) \<union> parentIds m R"
    "\<And>p. p \<notin> parentIds m R \<Longrightarrow> parentToBranch n1 p = parentToBranch ?n p"
    "set (children n1) \<subseteq> set (children ?n)" "set (children ?n) \<subseteq> set (children n1) \<union> childIds m R"
    "\<And>c. c \<notin> childIds m R \<Longrightarrow> childToBranch n1 c = childToBranch ?n c"
    unfolding framed_def by blast+
  have 1: "n_attributes (merged D R A m n1) = n_attributes ?n"
    by (simp add: merged_fields(8) [of D R A m n1] f(4))
       (simp add: merged_fields foldl_pushNew_idem)
  have 2: "targetRelations (merged D R A m n1) = targetRelations ?n"
    by (simp add: merged_fields(9) [of D R A m n1] f(5))
       (simp add: merged_fields foldl_pushNew_idem)
  have 3: "set (parents (merged D R A m n1)) = set (parents ?n)"
    using f(6,7) merged_sets(1) [of D R A m n0] by (auto simp: merged_sets(1) [of D R A m n1])
  have 4: "set (children (merged D R A m n1)) = set (children ?n)"
    using f(9,10) merged_sets(2) [of D R A m n0] by (auto simp: merged_sets(2) [of D R A m n1])
  have 5: "parentToBranch (merged D R A m n1) = parentToBranch ?n"
  proof (rule ext)
    fix p
    show "parentToBranch (merged D R A m n1) p = parentToBranch ?n p"
    proof (cases "p \<in> parentIds m R")
      case True
      then show ?thesis by (simp add: merged_fields map_add_edges parentIds_def)
    next
      case False
      then have "parentToBranch (merged D R A m n1) p = parentToBranch n1 p"
        by (simp add: merged_fields map_add_edges parentIds_def)
      with f(8) [OF False] show ?thesis by simp
    qed
  qed
  have 6: "childToBranch (merged D R A m n1) = childToBranch ?n"
  proof (rule ext)
    fix c
    show "childToBranch (merged D R A m n1) c = childToBranch ?n c"
    proof (cases "c \<in> childIds m R")
      case True
      then show ?thesis by (simp add: merged_fields map_add_edges childIds_def)
    next
      case False
      then have "childToBranch (merged D R A m n1) c = childToBranch n1 c"
        by (simp add: merged_fields map_add_edges childIds_def)
      with f(11) [OF False] show ?thesis by simp
    qed
  qed
  show ?thesis
    unfolding sameNote_def using 1 2 3 4 5 6 f(1,2,3)
    by (simp add: merged_fields(1,2,3))
qed

lemma sameNote_refl: "sameNote n n"
  by (simp add: sameNote_def)

lemma storeBranches_apply:
  "storeBranches f R k =
     (if k \<in> branchIds R then map_of (rev (map (\<lambda>b. (br_branchId b, Branch b)) R)) k else f k)"
  unfolding storeBranches_def
  using map_add_edges [of f "map (\<lambda>b. (br_branchId b, Branch b)) R" k]
  by (simp add: branchIds_def image_image)

subsection \<open>Merging the same batch twice\<close>

text \<open>
  C5. When addResp returns on a batch, it returns on the same batch again, and the second
  merge leaves the graph as the first one made it: the same branch store, the same
  attribute store, at every note id the same note fields, the same parentToBranch and
  childToBranch mappings, the same attribute and target-relation lists, and the same
  parents and children as sets. For the notes of the batch the parents and children
  lists are identical as lists. (For a note outside the batch the order of the lists may
  change: the second merge detaches the edges to the batch notes and appends them again.)
\<close>

theorem addResp_twice:
  assumes first: "addResp s noteRows branchRows attributeRows = Inr s1"
  shows "\<exists>s2. addResp s1 noteRows branchRows attributeRows = Inr s2
            \<and> sameGraph s1 s2
            \<and> (\<forall>row \<in> set noteRows. tc_notes s2 (nr_noteId row) = tc_notes s1 (nr_noteId row))"
proof -
  define N where "N = nr_noteId ` set noteRows"
  define R where "R = branchRows"
  define A where "A = attributeRows"
  define u0 where "u0 = foldl addNoteRow s noteRows"
  define v0 where "v0 = foldl addBranchRow u0 R"
  define D where "D = dom (tc_notes u0)"
  from first have p3: "addAttributeRows v0 A = Inr s1"
    by (simp add: addResp_def v0_def u0_def R_def A_def)
  note c0 = addAttributeRows_Inr [OF p3]
  have v0_notes: "tc_notes v0 m = map_option (wireNote m R) (tc_notes u0 m)" for m
    by (simp add: v0_def foldl_addBranchRow_notes)
  have D0: "dom (tc_notes v0) = D"
    by (auto simp: D_def v0_notes dom_def)
  have s1_notes: "tc_notes s1 m = map_option (merged D R A m) (tc_notes u0 m)" for m
    using c0 by (cases "tc_notes u0 m") (simp_all add: D0 v0_notes merged_def)
  have fresh0: "\<exists>r. tc_notes u0 m = Some (NoteShort r)" if "m \<in> N" for m
    using batch_notes_fresh [of m noteRows] that by (auto simp: N_def u0_def)
  have inv: "batchWired N R s1"
    by (rule merged_batchWired [of N u0 s1 D R A, OF fresh0 s1_notes])
  have resN: "\<forall>x \<in> N. tc_notes s1 x \<noteq> None"
    using fresh0 by (auto simp: s1_notes)
  define u1 where "u1 = foldl addNoteRow s1 noteRows"
  define v1 where "v1 = foldl addBranchRow u1 R"
  have rel: "detachedFrom N R s1 u1"
    unfolding u1_def
    by (rule foldl_addNoteRow_detached [OF inv _ resN detachedFrom_refl]) (simp add: N_def)
  have dom1: "(tc_notes u1 m = None) = (tc_notes s1 m = None)" for m
    using rel by (simp add: detachedFrom_def)
  have dom10: "(tc_notes u1 m = None) = (tc_notes u0 m = None)" for m
    by (simp add: dom1 s1_notes)
  have v1_notes: "tc_notes v1 m = map_option (wireNote m R) (tc_notes u1 m)" for m
    by (simp add: v1_def foldl_addBranchRow_notes)
  have D1: "dom (tc_notes v1) = D"
    using dom10 by (auto simp: D_def v1_notes dom_def)
  have "\<forall>r \<in> set A. tc_notes v1 (ar_noteId r) \<noteq> None"
  proof
    fix r assume "r \<in> set A"
    with c0 have "tc_notes v0 (ar_noteId r) \<noteq> None" by blast
    then have "ar_noteId r \<in> dom (tc_notes v0)" by auto
    then have "ar_noteId r \<in> dom (tc_notes v1)" by (simp add: D0 D1)
    then show "tc_notes v1 (ar_noteId r) \<noteq> None" by auto
  qed
  from addAttributeRows_ok [OF this] obtain s2 where q3: "addAttributeRows v1 A = Inr s2"
    by auto
  then have second: "addResp s1 noteRows branchRows attributeRows = Inr s2"
    by (simp add: addResp_def v1_def u1_def R_def A_def)
  note c1 = addAttributeRows_Inr [OF q3]
  have s2_notes: "tc_notes s2 m = map_option (merged D R A m) (tc_notes u1 m)" for m
    using c1 by (cases "tc_notes u1 m") (simp_all add: D1 v1_notes merged_def)
  have batch: "tc_notes s2 m = tc_notes s1 m" if "m \<in> N" for m
  proof -
    from batch_notes_fresh [of m noteRows] that
    obtain r where "\<forall>u. tc_notes (foldl addNoteRow u noteRows) m = Some (NoteShort r)"
      by (auto simp: N_def)
    then have "tc_notes u1 m = tc_notes u0 m"
      by (simp add: u1_def u0_def)
    then show ?thesis by (simp add: s1_notes s2_notes)
  qed
  have nts: "rel_option sameNote (tc_notes s1 m) (tc_notes s2 m)" for m
  proof (cases "m \<in> N")
    case True
    then show ?thesis
      by (simp add: batch option.rel_refl sameNote_refl)
  next
    case False
    show ?thesis
    proof (cases "tc_notes u0 m")
      case None
      with dom10 [of m] show ?thesis by (simp add: s1_notes s2_notes)
    next
      case (Some n0)
      then have n: "tc_notes s1 m = Some (merged D R A m n0)" by (simp add: s1_notes)
      from Some dom10 [of m] obtain n1 where n1: "tc_notes u1 m = Some n1" by auto
      from rel False n n1 have "framed m R (merged D R A m n0) n1"
        unfolding detachedFrom_def by blast
      then have "sameNote (merged D R A m n0) (merged D R A m n1)"
        by (rule merged_framed)
      then show ?thesis by (simp add: n s2_notes n1)
    qed
  qed
  have br: "tc_branches s1 = tc_branches s2"
  proof (rule ext)
    fix k
    have b1: "tc_branches s1 k = storeBranches (tc_branches u0) R k"
      using c0 by (simp add: v0_def foldl_addBranchRow_branches)
    have b2: "tc_branches s2 k = storeBranches (tc_branches u1) R k"
      using c1 by (simp add: v1_def foldl_addBranchRow_branches)
    show "tc_branches s1 k = tc_branches s2 k"
    proof (cases "k \<in> branchIds R")
      case True
      then show ?thesis by (simp add: b1 b2 storeBranches_apply)
    next
      case False
      with rel have "tc_branches u1 k = tc_branches s1 k"
        by (simp add: detachedFrom_def)
      with False show ?thesis by (simp add: b2 storeBranches_apply)
    qed
  qed
  have at: "tc_attributes s1 = tc_attributes s2"
  proof -
    have a1: "tc_attributes s1 = storeAttributes (tc_attributes v0) A"
      using c0 by blast
    have "tc_attributes v1 = tc_attributes s1"
      using rel by (simp add: v1_def foldl_addBranchRow_rest detachedFrom_def)
    with c1 have "tc_attributes s2 = storeAttributes (tc_attributes s1) A" by simp
    then show ?thesis
      by (simp add: a1 storeAttributes_def map_add_idem)
  qed
  have pr: "tc_noteComplementPromises s1 = tc_noteComplementPromises s2"
  proof -
    have "tc_noteComplementPromises v1 = tc_noteComplementPromises s1"
      using rel by (simp add: v1_def foldl_addBranchRow_rest detachedFrom_def)
    with c1 show ?thesis by simp
  qed
  have "sameGraph s1 s2"
    unfolding sameGraph_def using br at pr nts by blast
  with second batch show ?thesis
    by (auto simp: N_def)
qed

theorem addResp_twice_witness:
  "\<exists>s1. addResp (cacheOf [textNote ''A'', textNote ''P2''] [])
           [textNote ''P1''] [edge ''b1'' ''A'' ''P1'', edge ''b2'' ''A'' ''P2'']
           [relation ''a1'' ''A'' ''P2''] = Inr s1
      \<and> (\<exists>s2. addResp s1 [textNote ''P1''] [edge ''b1'' ''A'' ''P1'', edge ''b2'' ''A'' ''P2'']
                 [relation ''a1'' ''A'' ''P2''] = Inr s2
             \<and> sameGraph s1 s2
             \<and> (\<forall>row \<in> set [textNote ''P1''].
                  tc_notes s2 (nr_noteId row) = tc_notes s1 (nr_noteId row)))"
proof -
  have "\<exists>s1. addResp (cacheOf [textNote ''A'', textNote ''P2''] [])
           [textNote ''P1''] [edge ''b1'' ''A'' ''P1'', edge ''b2'' ''A'' ''P2'']
           [relation ''a1'' ''A'' ''P2''] = Inr s1"
    by (simp add: ex_defs merge_defs)
  then obtain s1 where s1: "addResp (cacheOf [textNote ''A'', textNote ''P2''] [])
           [textNote ''P1''] [edge ''b1'' ''A'' ''P1'', edge ''b2'' ''A'' ''P2'']
           [relation ''a1'' ''A'' ''P2''] = Inr s1" ..
  from addResp_twice [OF s1] s1 show ?thesis by blast
qed

text \<open>
  The parents list of a note outside the batch after one merge and after two. The cache
  holds A and P2; the batch is the note row P1 and the branch rows b1 (A under P1) and b2
  (A under P2). The first merge appends P1, then P2, to the parents of A. The second
  merge detaches the old P1 from its child A, which leaves P2, and appends P1 again.
\<close>

theorem addResp_twice_reorders_parents:
  "(case addResp (cacheOf [textNote ''A'', textNote ''P2''] [])
           [textNote ''P1''] [edge ''b1'' ''A'' ''P1'', edge ''b2'' ''A'' ''P2''] [] of
      Inl e \<Rightarrow> False
    | Inr s1 \<Rightarrow>
        (case addResp s1 [textNote ''P1''] [edge ''b1'' ''A'' ''P1'', edge ''b2'' ''A'' ''P2''] [] of
           Inl e \<Rightarrow> False
         | Inr s2 \<Rightarrow>
             map_option parents (tc_notes s1 ''A'') = Some [''P1'', ''P2'']
           \<and> map_option parents (tc_notes s2 ''A'') = Some [''P2'', ''P1'']))"
  by (simp add: ex_defs merge_defs)

subsection \<open>Synthesized branches of search notes\<close>










end
